theory Spec2Isabelle
  imports Complex_Main "HOL-Library.AList"
begin

section \<open>Strings\<close>

text \<open>
  A JavaScript string is a sequence of UTF-16 code units. The patterns of the intent
  table and the error messages contain CJK characters, so the 8-bit characters of HOL
  are not enough: a string is a list of code units, each a natural number.
  \<open>ascii\<close> embeds an ASCII literal.
\<close>

type_synonym jsstring = "nat list"

definition ascii :: "string \<Rightarrow> jsstring" where
  "ascii s = map of_char s"

section \<open>SmartCache (Cache.ts)\<close>

text \<open>
  \<open>Map<K, CacheEntry<V>>\<close> iterates in insertion order, \<open>Map.set\<close> on a key that
  is present keeps the key's position, and \<open>Map.delete\<close> removes it: an association
  list with \<open>AList.update\<close> and \<open>AList.delete\<close>. Every \<open>Date.now()\<close> of the source
  is an argument of the model (the reading the call obtained), so nothing is assumed
  about the clock. Numbers are integers (milliseconds, counts).
\<close>

record CacheOptions =
  opt_maxSize :: "int option"
  opt_ttlMs :: "int option"
  opt_prefix :: "jsstring option"

record 'v CacheEntry =
  entryValue :: 'v
  expiresAt :: int
  accessCount :: nat
  lastAccessed :: int

record 'v SmartCache =
  cache :: "(jsstring \<times> 'v CacheEntry) list"
  maxSize :: int
  ttlMs :: int
  prefix :: jsstring
  hitCount :: nat
  missCount :: nat

record CacheStats =
  stats_size :: nat
  stats_maxSize :: int
  stats_hitRate :: real
  stats_memoryUsage :: nat

text \<open>The constructor: the defaults, overridden by the options that are given.\<close>

definition newSmartCache :: "CacheOptions \<Rightarrow> 'v SmartCache" where
  "newSmartCache options =
     \<lparr> cache = [],
       maxSize = (case opt_maxSize options of None \<Rightarrow> 100 | Some n \<Rightarrow> n),
       ttlMs = (case opt_ttlMs options of None \<Rightarrow> 5 * 60 * 1000 | Some t \<Rightarrow> t),
       prefix = (case opt_prefix options of None \<Rightarrow> [] | Some p \<Rightarrow> p),
       hitCount = 0,
       missCount = 0 \<rparr>"

definition cache_size :: "'v SmartCache \<Rightarrow> nat" where
  "cache_size c = length (cache c)"

text \<open>
  The loop of \<open>evictLRU\<close>. Its three variables start as \<open>(null, Infinity, Infinity)\<close>
  (here \<open>None\<close>) and are finite from the first entry on, since every \<open>accessCount\<close>
  is below \<open>Infinity\<close>.
\<close>

fun lruStep :: "(jsstring \<times> nat \<times> int) option \<Rightarrow> jsstring \<times> 'v CacheEntry
    \<Rightarrow> (jsstring \<times> nat \<times> int) option" where
  "lruStep None (key, entry) = Some (key, accessCount entry, lastAccessed entry)"
| "lruStep (Some (lruKey, lruAccessCount, lruTime)) (key, entry) =
     (if accessCount entry < lruAccessCount
      then Some (key, accessCount entry, lastAccessed entry)
      else if accessCount entry = lruAccessCount
      then (if lastAccessed entry < lruTime
            then Some (key, lruAccessCount, lastAccessed entry)
            else Some (lruKey, lruAccessCount, lruTime))
      else Some (lruKey, lruAccessCount, lruTime))"

definition lruScan :: "(jsstring \<times> 'v CacheEntry) list
    \<Rightarrow> (jsstring \<times> nat \<times> int) option" where
  "lruScan entries = foldl lruStep None entries"

text \<open>
  \<open>if (lruKey) this.cache.delete(lruKey)\<close>: the test is JavaScript truthiness, which
  fails for \<open>null\<close> and for the empty string.
\<close>

definition evictLRU :: "'v SmartCache \<Rightarrow> 'v SmartCache" where
  "evictLRU c =
     (case lruScan (cache c) of
        None \<Rightarrow> c
      | Some (lruKey, lruAccessCount, lruTime) \<Rightarrow>
          if lruKey \<noteq> [] then c\<lparr>cache := AList.delete lruKey (cache c)\<rparr> else c)"

text \<open>
  \<open>set(key, value)\<close>; \<open>tExp\<close> and \<open>tAcc\<close> are the two clock readings, for
  \<open>expiresAt\<close> and for \<open>lastAccessed\<close>.
\<close>

definition cache_set :: "jsstring \<Rightarrow> 'v \<Rightarrow> int \<Rightarrow> int \<Rightarrow> 'v SmartCache \<Rightarrow> 'v SmartCache" where
  "cache_set key v tExp tAcc c =
     (let c1 = (if int (length (cache c)) \<ge> maxSize c then evictLRU c else c)
      in c1\<lparr>cache := AList.update key
            \<lparr> entryValue = v, expiresAt = tExp + ttlMs c1,
              accessCount = 0, lastAccessed = tAcc \<rparr> (cache c1)\<rparr>)"

text \<open>
  \<open>get(key)\<close> returns the value or \<open>undefined\<close> (\<open>None\<close>) and the cache it leaves;
  \<open>tChk\<close> is the reading compared with \<open>expiresAt\<close>, \<open>tAcc\<close> the one stored in
  \<open>lastAccessed\<close>.
\<close>

definition cache_get :: "jsstring \<Rightarrow> int \<Rightarrow> int \<Rightarrow> 'v SmartCache \<Rightarrow> 'v option \<times> 'v SmartCache" where
  "cache_get key tChk tAcc c =
     (case map_of (cache c) key of
        None \<Rightarrow> (None, c)
      | Some entry \<Rightarrow>
          if tChk > expiresAt entry
          then (None, c\<lparr>cache := AList.delete key (cache c)\<rparr>)
          else (Some (entryValue entry),
                c\<lparr>cache := AList.update key
                   (entry\<lparr>accessCount := accessCount entry + 1, lastAccessed := tAcc\<rparr>)
                   (cache c)\<rparr>))"

definition cache_has :: "jsstring \<Rightarrow> int \<Rightarrow> int \<Rightarrow> 'v SmartCache \<Rightarrow> bool \<times> 'v SmartCache" where
  "cache_has key tChk tAcc c =
     (case cache_get key tChk tAcc c of (r, c') \<Rightarrow> (r \<noteq> None, c'))"

definition cache_delete :: "jsstring \<Rightarrow> 'v SmartCache \<Rightarrow> bool \<times> 'v SmartCache" where
  "cache_delete key c =
     (map_of (cache c) key \<noteq> None, c\<lparr>cache := AList.delete key (cache c)\<rparr>)"

definition cache_clear :: "'v SmartCache \<Rightarrow> 'v SmartCache" where
  "cache_clear c = c\<lparr>cache := []\<rparr>"

definition calculateHitRate :: "'v SmartCache \<Rightarrow> real" where
  "calculateHitRate c =
     (let total = hitCount c + missCount c
      in if total > 0 then real (hitCount c) / real total else 0)"

text \<open>
  \<open>estimateMemoryUsage\<close>; \<open>jsonLength v\<close> stands for
  \<open>JSON.stringify(v).length\<close>, a function of the runtime.
\<close>

definition estimateMemoryUsage :: "('v \<Rightarrow> nat) \<Rightarrow> 'v SmartCache \<Rightarrow> nat" where
  "estimateMemoryUsage jsonLength c =
     foldl (\<lambda>bytes (key, entry). bytes + length key * 2 + jsonLength (entryValue entry) * 2)
       0 (cache c)"

definition getStats :: "('v \<Rightarrow> nat) \<Rightarrow> 'v SmartCache \<Rightarrow> CacheStats" where
  "getStats jsonLength c =
     \<lparr> stats_size = cache_size c,
       stats_maxSize = maxSize c,
       stats_hitRate = calculateHitRate c,
       stats_memoryUsage = estimateMemoryUsage jsonLength c \<rparr>"

text \<open>Sequences of calls on one cache: the public operations that change it.\<close>

datatype 'v cache_op =
    Set jsstring 'v int int
  | Get jsstring int int
  | Has jsstring int int
  | Delete jsstring
  | Clear

fun cache_apply :: "'v SmartCache \<Rightarrow> 'v cache_op \<Rightarrow> 'v SmartCache" where
  "cache_apply c (Set key v tExp tAcc) = cache_set key v tExp tAcc c"
| "cache_apply c (Get key tChk tAcc) = snd (cache_get key tChk tAcc c)"
| "cache_apply c (Has key tChk tAcc) = snd (cache_has key tChk tAcc c)"
| "cache_apply c (Delete key) = snd (cache_delete key c)"
| "cache_apply c Clear = cache_clear c"

definition cache_run :: "'v SmartCache \<Rightarrow> 'v cache_op list \<Rightarrow> 'v SmartCache" where
  "cache_run c ops = foldl cache_apply c ops"

section \<open>Intents, artifacts and results (Agent.ts)\<close>

datatype ChannelType = Slack | Discord | Telegram | Whatsapp | Imessage

datatype IntentType = Analyze | Review | Pricing | Export | Help | Unknown

text \<open>The string values of the two union types, as template literals print them.\<close>

fun channel_name :: "ChannelType \<Rightarrow> jsstring" where
  "channel_name Slack = ascii ''slack''"
| "channel_name Discord = ascii ''discord''"
| "channel_name Telegram = ascii ''telegram''"
| "channel_name Whatsapp = ascii ''whatsapp''"
| "channel_name Imessage = ascii ''imessage''"

fun type_name :: "IntentType \<Rightarrow> jsstring" where
  "type_name Analyze = ascii ''analyze''"
| "type_name Review = ascii ''review''"
| "type_name Pricing = ascii ''pricing''"
| "type_name Export = ascii ''export''"
| "type_name Help = ascii ''help''"
| "type_name Unknown = ascii ''unknown''"

text \<open>
  \<open>Record<string, any>\<close>: the recognizer stores strings and numbers only; the keys
  keep their insertion order.
\<close>

datatype jsvalue = JString jsstring | JNumber int

type_synonym params = "(jsstring \<times> jsvalue) list"

record Intent =
  intentType :: IntentType
  params :: params
  confidence :: real

record Artifact =
  artifact_id :: jsstring
  artifact_type :: jsstring
  artifact_data :: params

text \<open>\<open>StateResult\<close> of State.ts; a field that may be missing is an option.\<close>

record StateResult =
  result_artifact :: "Artifact option"
  result_success :: "bool option"
  result_error :: "jsstring option"

text \<open>
  Modelled from the spec: the declaration of \<open>ProcessorResult\<close> is missing from the
  sources (Processor.ts re-exports it from Agent.ts, which does not declare it). The
  spec gives a handler's result an optional artifact, and \<open>handle\<close> stores the result
  where a \<open>StateResult\<close> is expected, so it has \<open>StateResult\<close>'s fields.
\<close>

type_synonym ProcessorResult = StateResult

section \<open>StateManager (State.ts)\<close>

record StateEntry =
  entry_id :: jsstring
  entry_intent :: Intent
  entry_result :: StateResult
  entry_timestamp :: int
  entry_duration :: int
  entry_metadata :: "params option"

text \<open>
  The argument of \<open>record\<close>, an \<open>Omit<StateEntry, 'id'>\<close>; the tests leave the
  timestamp out, and the source then takes \<open>new Date()\<close>.
\<close>

record EntryInput =
  in_intent :: Intent
  in_result :: StateResult
  in_timestamp :: "int option"
  in_duration :: int
  in_metadata :: "params option"

record StateManager =
  history :: "StateEntry list"
  currentIndex :: int
  maxHistorySize :: int

record StateSnapshot =
  entries :: "StateEntry list"
  snapshotIndex :: int

definition newStateManager :: StateManager where
  "newStateManager = \<lparr> history = [], currentIndex = - 1, maxHistorySize = 100 \<rparr>"

text \<open>
  \<open>Array.prototype.slice(start, stop)\<close>: a negative index counts from the end, both
  are clamped to the array, and a missing \<open>stop\<close> is the length.
\<close>

definition js_index :: "int \<Rightarrow> nat \<Rightarrow> nat" where
  "js_index r len = (if r < 0 then nat (max (int len + r) 0) else min (nat r) len)"

definition slice :: "int \<Rightarrow> int option \<Rightarrow> 'a list \<Rightarrow> 'a list" where
  "slice start stop xs =
     (let len = length xs;
          k = js_index start len;
          final = (case stop of None \<Rightarrow> len | Some e \<Rightarrow> js_index e len)
      in take (final - k) (drop k xs))"

text \<open>
  \<open>record(entry)\<close>; \<open>newId\<close> is what \<open>generateId()\<close> returned and \<open>now\<close> the
  \<open>new Date()\<close> taken when the entry has no timestamp.
\<close>

definition makeEntry :: "EntryInput \<Rightarrow> jsstring \<Rightarrow> int \<Rightarrow> StateEntry" where
  "makeEntry entry newId now =
     \<lparr> entry_id = newId, entry_intent = in_intent entry, entry_result = in_result entry,
       entry_timestamp = (case in_timestamp entry of Some t \<Rightarrow> t | None \<Rightarrow> now),
       entry_duration = in_duration entry, entry_metadata = in_metadata entry \<rparr>"

definition recordEntry :: "EntryInput \<Rightarrow> jsstring \<Rightarrow> int \<Rightarrow> StateManager
    \<Rightarrow> StateEntry \<times> StateManager" where
  "recordEntry entry newId now s =
     (let newEntry = makeEntry entry newId now;
          h1 = (if currentIndex s < int (length (history s)) - 1
                then slice 0 (Some (currentIndex s + 1)) (history s)
                else history s);
          h2 = h1 @ [newEntry];
          i2 = int (length h2) - 1;
          h3 = (if int (length h2) > maxHistorySize s
                then slice (- maxHistorySize s) None h2 else h2);
          i3 = (if int (length h2) > maxHistorySize s then int (length h3) - 1 else i2)
      in (newEntry, s\<lparr>history := h3, currentIndex := i3\<rparr>))"

definition getCurrent :: "StateManager \<Rightarrow> StateEntry option" where
  "getCurrent s =
     (if currentIndex s < 0 \<or> currentIndex s \<ge> int (length (history s)) then None
      else Some (history s ! nat (currentIndex s)))"

definition undo :: "StateManager \<Rightarrow> StateEntry option \<times> StateManager" where
  "undo s =
     (if currentIndex s < 0 then (None, s)
      else (let s' = s\<lparr>currentIndex := currentIndex s - 1\<rparr> in (getCurrent s', s')))"

definition redo :: "StateManager \<Rightarrow> StateEntry option \<times> StateManager" where
  "redo s =
     (if currentIndex s \<ge> int (length (history s)) - 1 then (None, s)
      else (let s' = s\<lparr>currentIndex := currentIndex s + 1\<rparr> in (getCurrent s', s')))"

definition getSnapshot :: "StateManager \<Rightarrow> StateSnapshot" where
  "getSnapshot s = \<lparr> entries = history s, snapshotIndex = currentIndex s \<rparr>"

definition restoreSnapshot :: "StateSnapshot \<Rightarrow> StateManager \<Rightarrow> StateManager" where
  "restoreSnapshot snapshot s =
     s\<lparr>history := entries snapshot, currentIndex := snapshotIndex snapshot\<rparr>"

definition clearHistory :: "StateManager \<Rightarrow> StateManager" where
  "clearHistory s = s\<lparr>history := [], currentIndex := - 1\<rparr>"

definition history_size :: "StateManager \<Rightarrow> nat" where
  "history_size s = length (history s)"

definition searchByIntentType :: "jsstring \<Rightarrow> StateManager \<Rightarrow> StateEntry list" where
  "searchByIntentType ty s =
     filter (\<lambda>entry. type_name (intentType (entry_intent entry)) = ty) (history s)"

definition recent :: "int \<Rightarrow> StateManager \<Rightarrow> StateEntry list" where
  "recent n s = slice (- n) None (history s)"

text \<open>
  Calls in sequence: \<open>recordAll\<close> records the given entries one after the other (each
  with the id and the date its call obtained), \<open>undoTimes m\<close> calls \<open>undo\<close> m times.
\<close>

definition recordAll :: "StateManager \<Rightarrow> (EntryInput \<times> jsstring \<times> int) list \<Rightarrow> StateManager" where
  "recordAll s rs = foldl (\<lambda>s (entry, newId, now). snd (recordEntry entry newId now s)) s rs"

fun undoTimes :: "nat \<Rightarrow> StateManager \<Rightarrow> StateManager" where
  "undoTimes 0 s = s"
| "undoTimes (Suc m) s = undoTimes m (snd (undo s))"

section \<open>The intent recognizer (Agent.ts)\<close>

text \<open>
  What the recognizer takes from the JavaScript runtime is a parameter of the model, so
  every theorem holds for the real functions: \<open>String.prototype.toLowerCase\<close>, the
  first capture group of the four \<open>String.prototype.match\<close> calls of
  \<open>extractParams\<close> (for the amount, already through \<open>parseInt\<close>),
  \<open>JSON.stringify\<close> on the parameters, and the printing of a number in a template
  literal.
\<close>

record runtime =
  toLowerCase :: "jsstring \<Rightarrow> jsstring"
  matchCompany :: "jsstring \<Rightarrow> jsstring option"
  matchContent :: "jsstring \<Rightarrow> jsstring option"
  matchReport :: "jsstring \<Rightarrow> jsstring option"
  matchAmount :: "jsstring \<Rightarrow> int option"
  stringify :: "params \<Rightarrow> jsstring"
  numberToString :: "int \<Rightarrow> jsstring"

text \<open>
  \<open>String.prototype.trim\<close> removes the code units of WhiteSpace and LineTerminator
  from both ends.
\<close>

definition isWhiteSpace :: "nat \<Rightarrow> bool" where
  "isWhiteSpace c \<longleftrightarrow>
     c \<in> set [9, 10, 11, 12, 13, 32, 160, 5760, 8232, 8233, 8239, 8287, 12288, 65279]
     \<or> (8192 \<le> c \<and> c \<le> 8202)"

definition trim :: "jsstring \<Rightarrow> jsstring" where
  "trim s = rev (dropWhile isWhiteSpace (rev (dropWhile isWhiteSpace s)))"

text \<open>
  The regular expressions of the table have two shapes: \<open>/^literal/i\<close> and an
  alternation of literals \<open>/w1|w2|.../i\<close>, searched anywhere. Under the flag \<open>i\<close> two
  code units match when they canonicalize to the same one; for the characters of these
  patterns (ASCII letters and punctuation, CJK ideographs) that is equality up to the
  case of an ASCII letter, which \<open>canon\<close> computes.
\<close>

datatype pattern = StartsWith jsstring | Contains "jsstring list"

definition canon :: "nat \<Rightarrow> nat" where
  "canon c = (if 97 \<le> c \<and> c \<le> 122 then c - 32 else c)"

fun starts_with :: "jsstring \<Rightarrow> jsstring \<Rightarrow> bool" where
  "starts_with [] s = True"
| "starts_with (p # ps) [] = False"
| "starts_with (p # ps) (c # cs) = (canon p = canon c \<and> starts_with ps cs)"

fun occurs_in :: "jsstring \<Rightarrow> jsstring \<Rightarrow> bool" where
  "occurs_in w [] = starts_with w []"
| "occurs_in w (c # cs) = (starts_with w (c # cs) \<or> occurs_in w cs)"

fun test :: "pattern \<Rightarrow> jsstring \<Rightarrow> bool" where
  "test (StartsWith p) s = starts_with p s"
| "test (Contains ws) s = list_ex (\<lambda>w. occurs_in w s) ws"

text \<open>
  The table \<open>patterns\<close>, in the order of its declaration (the order in which
  \<open>Object.entries\<close> lists it). The CJK words are given by their code units.
\<close>

definition patterns :: "(IntentType \<times> pattern list) list" where
  "patterns =
     [(Analyze, [StartsWith (ascii ''/analyze''),
                 Contains [[20998, 26512], [26816, 27979], [23457, 26597]],
                 Contains [[21512, 35268], [25919, 31574]],
                 Contains [[30475, 30475], [26816, 26597]]]),
      (Review, [StartsWith (ascii ''/review''),
                Contains [[35780, 35770], [21453, 39304]],
                Contains [[24453, 22788, 29702], [24453, 38405]],
                Contains [[38382, 39064], [24847, 35265]]]),
      (Pricing, [StartsWith (ascii ''/price''),
                 Contains [[23450, 20215], [20215, 26684]],
                 Contains [[25104, 26412], [36153, 29992]],
                 Contains [[22810, 23569, 38065]]]),
      (Export, [StartsWith (ascii ''/export''),
                Contains [[23548, 20986], [19979, 36733]],
                Contains [[29983, 25104], [21019, 24314]],
                Contains [ascii ''PDF'', ascii ''DOCX'', ascii ''PPTX'']]),
      (Help, [StartsWith (ascii ''/help''),
              Contains [[24110, 21161], [35828, 26126]],
              Contains [[24590, 20040, 29992], [22914, 20309]]]),
      (Unknown, [])]"

text \<open>\<open>extractParams\<close>: the switch on the intent type.\<close>

definition extractParams :: "runtime \<Rightarrow> jsstring \<Rightarrow> IntentType \<Rightarrow> params" where
  "extractParams E message ty =
     (case ty of
        Analyze \<Rightarrow>
          (case matchCompany E message of
             Some company \<Rightarrow> [(ascii ''company'', JString company)] | None \<Rightarrow> [])
          @ (case matchContent E message of
               Some content \<Rightarrow> [(ascii ''content'', JString content)] | None \<Rightarrow> [])
      | Review \<Rightarrow>
          (case matchReport E message of
             Some reportId \<Rightarrow> [(ascii ''reportId'', JString reportId)] | None \<Rightarrow> [])
      | Pricing \<Rightarrow>
          (case matchAmount E message of
             Some amount \<Rightarrow> [(ascii ''amount'', JNumber amount)] | None \<Rightarrow> [])
      | Export \<Rightarrow>
          (if test (Contains [ascii ''pdf'']) message
           then [(ascii ''format'', JString (ascii ''pdf''))]
           else if test (Contains [ascii ''docx'']) message
           then [(ascii ''format'', JString (ascii ''docx''))]
           else if test (Contains [ascii ''pptx'']) message
           then [(ascii ''format'', JString (ascii ''pptx''))]
           else [])
      | Help \<Rightarrow> []
      | Unknown \<Rightarrow> [])"

text \<open>
  The two loops of \<open>recognize\<close>: the inner one returns at the first pattern that
  matches, the outer one skips the entry \<open>unknown\<close> and goes through the table in
  order. \<open>rnd\<close> is the value \<open>Math.random()\<close> returned.
\<close>

fun matchAny :: "pattern list \<Rightarrow> jsstring \<Rightarrow> bool" where
  "matchAny [] s = False"
| "matchAny (p # ps) s = (if test p s then True else matchAny ps s)"

fun scanTable :: "(IntentType \<times> pattern list) list \<Rightarrow> jsstring \<Rightarrow> IntentType option" where
  "scanTable [] s = None"
| "scanTable ((ty, ps) # table) s =
     (if ty = Unknown then scanTable table s
      else if matchAny ps s then Some ty
      else scanTable table s)"

definition recognize :: "runtime \<Rightarrow> real \<Rightarrow> jsstring \<Rightarrow> Intent" where
  "recognize E rnd message =
     (let trimmed = toLowerCase E (trim message)
      in case scanTable patterns trimmed of
           Some ty \<Rightarrow>
             \<lparr> intentType = ty, params = extractParams E message ty,
               confidence = 85 / 100 + rnd * (1 / 10) \<rparr>
         | None \<Rightarrow>
             \<lparr> intentType = Unknown, params = [(ascii ''raw'', JString message)],
               confidence = 1 / 2 \<rparr>)"

section \<open>PolicyAgent (Agent.ts)\<close>

record UserInfo =
  user_id :: jsstring
  user_name :: jsstring
  roles :: "jsstring list"

record ArtifactReference =
  ref_id :: jsstring
  ref_type :: jsstring
  createdAt :: int

record AgentContext =
  user :: UserInfo
  message :: jsstring
  channel :: ChannelType
  timestamp :: int
  artifacts :: "ArtifactReference list"

text \<open>\<open>AgentOptions\<close>: every field is optional; \<open>None\<close> is a field that is not given.\<close>

record AgentOptions =
  strictMode :: "bool option"
  maxCacheSize :: "int option"
  enableHistory :: "bool option"
  defaultChannel :: "ChannelType option"

record ProcessingResult =
  success :: bool
  artifact :: "Artifact option"
  fromCache :: "bool option"
  duration :: int
  error :: "jsstring option"

text \<open>
  What a handler or a hook throws (or rejects with): an \<open>Error\<close> with its message, or
  any other value, with the string \<open>String(value)\<close>.
\<close>

datatype thrown = ErrorObject jsstring | OtherValue jsstring

fun error_message :: "thrown \<Rightarrow> jsstring" where
  "error_message (ErrorObject m) = m"
| "error_message (OtherValue s) = s"

text \<open>
  A processor's \<open>execute\<close> is the handler's own code: a function of the parameters,
  the context and a reading of the world outside (the clock), which returns a result or
  throws.
\<close>

record Processor =
  proc_type :: jsstring
  proc_version :: "jsstring option"
  execute :: "params \<Rightarrow> AgentContext \<Rightarrow> int \<Rightarrow> thrown + ProcessorResult"

text \<open>
  A plugin's hooks, each optional. \<open>onBeforeProcess\<close> may change the context or throw;
  \<open>onAfterProcess\<close> may throw. The model covers plugins whose hooks and whose
  \<open>install\<close> leave the agent itself as it is.
\<close>

record Plugin =
  onBeforeProcess :: "(AgentContext \<Rightarrow> thrown + AgentContext) option"
  onAfterProcess :: "(AgentContext \<Rightarrow> ProcessorResult \<Rightarrow> thrown + unit) option"

text \<open>
  The agent's fields. \<open>executions\<close> is not a field of the source: it counts the calls
  of \<open>processor.execute\<close>, so that theorems can say whether a handler ran.
\<close>

record PolicyAgent =
  processors :: "IntentType \<Rightarrow> Processor option"
  agentCache :: "Artifact SmartCache"
  stateManager :: StateManager
  options :: AgentOptions
  plugins :: "Plugin list"
  executions :: nat

definition mergeOptions :: "AgentOptions \<Rightarrow> AgentOptions \<Rightarrow> AgentOptions" where
  "mergeOptions base given =
     \<lparr> strictMode = (case strictMode given of None \<Rightarrow> strictMode base | Some v \<Rightarrow> Some v),
       maxCacheSize = (case maxCacheSize given of None \<Rightarrow> maxCacheSize base | Some v \<Rightarrow> Some v),
       enableHistory = (case enableHistory given of None \<Rightarrow> enableHistory base | Some v \<Rightarrow> Some v),
       defaultChannel = (case defaultChannel given of None \<Rightarrow> defaultChannel base | Some v \<Rightarrow> Some v) \<rparr>"

definition defaultOptions :: AgentOptions where
  "defaultOptions =
     \<lparr> strictMode = Some False, maxCacheSize = Some 100,
       enableHistory = Some True, defaultChannel = Some Slack \<rparr>"

text \<open>The four default processors; each returns an artifact whose id ends in the clock reading.\<close>

definition defaultProcessor :: "runtime \<Rightarrow> string \<Rightarrow> string \<Rightarrow> string \<Rightarrow> Processor" where
  "defaultProcessor E ptype idPrefix atype =
     \<lparr> proc_type = ascii ptype, proc_version = None,
       execute = (\<lambda>ps ctx now. Inr
         \<lparr> result_artifact = Some
             \<lparr> artifact_id = ascii idPrefix @ numberToString E now,
               artifact_type = ascii atype, artifact_data = ps \<rparr>,
           result_success = None, result_error = None \<rparr>) \<rparr>"

definition createComplianceProcessor :: "runtime \<Rightarrow> Processor" where
  "createComplianceProcessor E = defaultProcessor E ''compliance'' ''compliance-'' ''compliance-report''"

definition createReviewProcessor :: "runtime \<Rightarrow> Processor" where
  "createReviewProcessor E = defaultProcessor E ''review'' ''review-'' ''review-comments''"

definition createPricingProcessor :: "runtime \<Rightarrow> Processor" where
  "createPricingProcessor E = defaultProcessor E ''pricing'' ''pricing-'' ''pricing-calculator''"

definition createExportProcessor :: "runtime \<Rightarrow> Processor" where
  "createExportProcessor E = defaultProcessor E ''export'' ''export-'' ''file-export''"

definition initDefaultProcessors :: "runtime \<Rightarrow> IntentType \<Rightarrow> Processor option" where
  "initDefaultProcessors E =
     (((Map.empty(Analyze \<mapsto> createComplianceProcessor E))
         (Review \<mapsto> createReviewProcessor E))
         (Pricing \<mapsto> createPricingProcessor E))
         (Export \<mapsto> createExportProcessor E)"

definition createAgent :: "runtime \<Rightarrow> AgentOptions \<Rightarrow> PolicyAgent" where
  "createAgent E given =
     (let opts = mergeOptions defaultOptions given
      in \<lparr> processors = initDefaultProcessors E,
           agentCache = newSmartCache
             \<lparr> opt_maxSize = maxCacheSize opts, opt_ttlMs = None, opt_prefix = None \<rparr>,
           stateManager = newStateManager,
           options = opts,
           plugins = [],
           executions = 0 \<rparr>)"

definition configure :: "AgentOptions \<Rightarrow> PolicyAgent \<Rightarrow> PolicyAgent" where
  "configure given a = a\<lparr>options := mergeOptions (options a) given\<rparr>"

definition use :: "Plugin \<Rightarrow> PolicyAgent \<Rightarrow> PolicyAgent" where
  "use plugin a = a\<lparr>plugins := plugins a @ [plugin]\<rparr>"

definition registerProcessor :: "IntentType \<Rightarrow> Processor \<Rightarrow> PolicyAgent \<Rightarrow> PolicyAgent" where
  "registerProcessor ty processor a = a\<lparr>processors := (processors a)(ty \<mapsto> processor)\<rparr>"

definition generateCacheKey :: "runtime \<Rightarrow> Intent \<Rightarrow> AgentContext \<Rightarrow> jsstring" where
  "generateCacheKey E i ctx =
     channel_name (channel ctx) @ ascii '':'' @ type_name (intentType i) @ ascii '':''
     @ stringify E (params i)"

text \<open>The hooks, in the order of registration; a hook that throws ends the loop.\<close>

fun runBefore :: "Plugin list \<Rightarrow> AgentContext \<Rightarrow> thrown + AgentContext" where
  "runBefore [] ctx = Inr ctx"
| "runBefore (plugin # rest) ctx =
     (case onBeforeProcess plugin of
        None \<Rightarrow> runBefore rest ctx
      | Some hook \<Rightarrow>
          (case hook ctx of Inl e \<Rightarrow> Inl e | Inr ctx' \<Rightarrow> runBefore rest ctx'))"

fun runAfter :: "Plugin list \<Rightarrow> AgentContext \<Rightarrow> ProcessorResult \<Rightarrow> thrown + unit" where
  "runAfter [] ctx r = Inr ()"
| "runAfter (plugin # rest) ctx r =
     (case onAfterProcess plugin of
        None \<Rightarrow> runAfter rest ctx r
      | Some hook \<Rightarrow>
          (case hook ctx r of Inl e \<Rightarrow> Inl e | Inr u \<Rightarrow> runAfter rest ctx r))"

text \<open>
  What one call of \<open>handle\<close> obtains from outside: each \<open>Date.now()\<close> and
  \<open>new Date()\<close> in the order of the source, the id \<open>generateId()\<close> made, and
  \<open>Math.random()\<close>. \<open>t_end\<close> is the reading of the return statement that is taken.
\<close>

record readings =
  t_start :: int
  rnd :: real
  t_hasChk :: int
  t_hasAcc :: int
  t_getChk :: int
  t_getAcc :: int
  t_exec :: int
  new_id :: jsstring
  t_stamp :: int
  t_recorded :: int
  t_setExp :: int
  t_setAcc :: int
  t_end :: int

definition notFoundPrefix :: jsstring where
  "notFoundPrefix = [26410, 25214, 21040, 22788, 29702, 22120, 58, 32]"

text \<open>
  The body of the \<open>try\<close> block of \<open>handle\<close>: it returns a result or throws, and in both
  cases leaves the agent as the steps before changed it.
\<close>

definition handle_try :: "runtime \<Rightarrow> readings \<Rightarrow> AgentContext \<Rightarrow> PolicyAgent
    \<Rightarrow> (thrown + ProcessingResult) \<times> PolicyAgent" where
  "handle_try E r ctx0 a =
     (let startTime = t_start r in
      case runBefore (plugins a) ctx0 of
        Inl e \<Rightarrow> (Inl e, a)
      | Inr ctx \<Rightarrow>
         (let i = recognize E (rnd r) (message ctx);
              cacheKey = generateCacheKey E i ctx;
              (hit, c1) = cache_has cacheKey (t_hasChk r) (t_hasAcc r) (agentCache a)
          in if hit
             then (let (cached, c2) = cache_get cacheKey (t_getChk r) (t_getAcc r) c1
                   in (Inr \<lparr> success = True, artifact = cached, fromCache = Some True,
                            duration = t_end r - startTime, error = None \<rparr>,
                       a\<lparr>agentCache := c2\<rparr>))
             else (case processors a (intentType i) of
                None \<Rightarrow>
                  (Inr \<lparr> success = False, artifact = None, fromCache = None,
                         duration = t_end r - startTime,
                         error = Some (notFoundPrefix @ type_name (intentType i)) \<rparr>,
                   a\<lparr>agentCache := c1\<rparr>)
              | Some processor \<Rightarrow>
                  (let a1 = a\<lparr>agentCache := c1, executions := executions a + 1\<rparr>
                   in case execute processor (params i) ctx (t_exec r) of
                        Inl e \<Rightarrow> (Inl e, a1)
                      | Inr res \<Rightarrow>
                         (let a2 = (if enableHistory (options a1) = Some True
                                    then a1\<lparr>stateManager := snd (recordEntry
                                           \<lparr> in_intent = i, in_result = res,
                                             in_timestamp = Some (t_stamp r),
                                             in_duration = t_recorded r - startTime,
                                             in_metadata = None \<rparr>
                                           (new_id r) (t_stamp r) (stateManager a1))\<rparr>
                                    else a1)
                          in case runAfter (plugins a) ctx res of
                               Inl e \<Rightarrow> (Inl e, a2)
                             | Inr u \<Rightarrow>
                                (let a3 = (case result_artifact res of
                                             Some art \<Rightarrow>
                                               a2\<lparr>agentCache := cache_set cacheKey art
                                                    (t_setExp r) (t_setAcc r) (agentCache a2)\<rparr>
                                           | None \<Rightarrow> a2)
                                 in (Inr \<lparr> success = True, artifact = result_artifact res,
                                          fromCache = Some False,
                                          duration = t_end r - startTime, error = None \<rparr>,
                                     a3)))))))"

text \<open>\<open>handle\<close>: the \<open>try\<close> block and its \<open>catch\<close>.\<close>

definition handle :: "runtime \<Rightarrow> readings \<Rightarrow> AgentContext \<Rightarrow> PolicyAgent
    \<Rightarrow> ProcessingResult \<times> PolicyAgent" where
  "handle E r ctx0 a =
     (case handle_try E r ctx0 a of
        (Inr res, a') \<Rightarrow> (res, a')
      | (Inl e, a') \<Rightarrow>
          (\<lparr> success = False, artifact = None, fromCache = None,
             duration = t_end r - t_start r, error = Some (error_message e) \<rparr>, a'))"


section \<open>Notions used in the statements\<close>

text \<open>\<open>sets_key key x\<close>: the call \<open>x\<close> is a \<open>set\<close> of \<open>key\<close>.\<close>

fun sets_key :: "jsstring \<Rightarrow> 'v cache_op \<Rightarrow> bool" where
  "sets_key key (Set k v tExp tAcc) = (k = key)"
| "sets_key key _ = False"


text \<open>
  A cache within its capacity: distinct keys (which the map guarantees), no empty key,
  and at most \<open>maxSize\<close> entries.
\<close>

definition cache_bounded :: "'v SmartCache \<Rightarrow> bool" where
  "cache_bounded c \<longleftrightarrow>
     distinct (map fst (cache c)) \<and> [] \<notin> fst ` set (cache c)
     \<and> int (length (cache c)) \<le> maxSize c"

fun key_nonempty :: "'v cache_op \<Rightarrow> bool" where
  "key_nonempty (Set key v tExp tAcc) = (key \<noteq> [])"
| "key_nonempty _ = True"


text \<open>The entry that a call of \<open>record\<close> stores.\<close>

definition entryOf :: "EntryInput \<times> jsstring \<times> int \<Rightarrow> StateEntry" where
  "entryOf r = (case r of (entry, newId, now) \<Rightarrow> makeEntry entry newId now)"


text \<open>
  Concrete inputs for the instances: the entry the tests of StateManager record, and
  the cache of the TTL test (\<open>maxSize\<close> 10, \<open>ttlMs\<close> 100) after one \<open>set\<close> at time 0.
\<close>

definition sampleInput :: EntryInput where
  "sampleInput = \<lparr> in_intent = \<lparr> intentType = Analyze, params = [], confidence = 9 / 10 \<rparr>,
       in_result = \<lparr> result_artifact = None, result_success = Some True, result_error = None \<rparr>,
       in_timestamp = None, in_duration = 100, in_metadata = None \<rparr>"


definition ttlCache :: "nat SmartCache" where
  "ttlCache = cache_set (ascii ''key1'') 1 0 0
     (newSmartCache \<lparr> opt_maxSize = Some 10, opt_ttlMs = Some 100, opt_prefix = None \<rparr>)"

definition scenarioCache :: "nat SmartCache" where
  "scenarioCache = cache_run
     (newSmartCache \<lparr> opt_maxSize = Some 3, opt_ttlMs = Some 1000, opt_prefix = None \<rparr>)
     [Set (ascii ''k1'') 1 0 0, Set (ascii ''k2'') 2 1 1, Set (ascii ''k3'') 3 2 2,
      Get (ascii ''k1'') 3 3, Get (ascii ''k1'') 4 4]"

text \<open>
  The recognizer in the words of its contract: the intent types in the order of the
  table, the patterns of a type, and "some pattern of the type matches".
\<close>

definition tableOrder :: "IntentType list" where
  "tableOrder = [Analyze, Review, Pricing, Export, Help]"

definition patternsOf :: "IntentType \<Rightarrow> pattern list" where
  "patternsOf ty = (case map_of patterns ty of Some ps \<Rightarrow> ps | None \<Rightarrow> [])"

definition matchesType :: "IntentType \<Rightarrow> jsstring \<Rightarrow> bool" where
  "matchesType ty s \<longleftrightarrow> (\<exists>p \<in> set (patternsOf ty). test p s)"

text \<open>
  One call of \<open>handle\<close>, step by step: the intent it recognizes, the cache key, whether
  the cache check hits and the cache it leaves, the failure result of the \<open>catch\<close> and
  of a missing processor, and the entry it hands to \<open>record\<close>.
\<close>

definition intentOf :: "runtime \<Rightarrow> readings \<Rightarrow> AgentContext \<Rightarrow> Intent" where
  "intentOf E r ctx = recognize E (rnd r) (message ctx)"

definition keyOf :: "runtime \<Rightarrow> readings \<Rightarrow> AgentContext \<Rightarrow> jsstring" where
  "keyOf E r ctx = generateCacheKey E (intentOf E r ctx) ctx"

definition isHit :: "runtime \<Rightarrow> readings \<Rightarrow> AgentContext \<Rightarrow> PolicyAgent \<Rightarrow> bool" where
  "isHit E r ctx a = fst (cache_has (keyOf E r ctx) (t_hasChk r) (t_hasAcc r) (agentCache a))"

definition afterHas :: "runtime \<Rightarrow> readings \<Rightarrow> AgentContext \<Rightarrow> PolicyAgent \<Rightarrow> Artifact SmartCache" where
  "afterHas E r ctx a = snd (cache_has (keyOf E r ctx) (t_hasChk r) (t_hasAcc r) (agentCache a))"

definition failure :: "readings \<Rightarrow> jsstring \<Rightarrow> ProcessingResult" where
  "failure r m = \<lparr> success = False, artifact = None, fromCache = None,
                   duration = t_end r - t_start r, error = Some m \<rparr>"

definition historyInput :: "runtime \<Rightarrow> readings \<Rightarrow> AgentContext \<Rightarrow> ProcessorResult \<Rightarrow> EntryInput" where
  "historyInput E r ctx res =
     \<lparr> in_intent = intentOf E r ctx, in_result = res, in_timestamp = Some (t_stamp r),
       in_duration = t_recorded r - t_start r, in_metadata = None \<rparr>"


section \<open>A runtime and inputs for the instances\<close>

text \<open>
  \<open>sampleRuntime\<close> computes what the JavaScript functions return on the messages of the
  instances below: ASCII and CJK text without quotation marks and without the markers
  of a company or a report, numbers below \<open>2^53\<close>, parameters whose strings need no
  escape.
\<close>

definition asciiLower :: "jsstring \<Rightarrow> jsstring" where
  "asciiLower s = map (\<lambda>c. if 65 \<le> c \<and> c \<le> 90 then c + 32 else c) s"

function decimal :: "nat \<Rightarrow> jsstring" where
  "decimal n = (if n < 10 then [48 + n] else decimal (n div 10) @ [48 + n mod 10])"
  by pat_completeness auto

termination
  by (relation "measure id") auto

declare decimal.simps [simp del]

definition isDigit :: "nat \<Rightarrow> bool" where
  "isDigit c \<longleftrightarrow> 48 \<le> c \<and> c \<le> 57"

definition firstNumber :: "jsstring \<Rightarrow> int option" where
  "firstNumber m =
     (let ds = takeWhile isDigit (dropWhile (\<lambda>c. \<not> isDigit c) m)
      in if ds = [] then None else Some (foldl (\<lambda>n d. 10 * n + int (d - 48)) 0 ds))"

fun showValue :: "jsvalue \<Rightarrow> jsstring" where
  "showValue (JString s) = [34] @ s @ [34]"
| "showValue (JNumber n) = (if n < 0 then 45 # decimal (nat (- n)) else decimal (nat n))"

fun showMembers :: "params \<Rightarrow> jsstring" where
  "showMembers [] = []"
| "showMembers [(k, v)] = [34] @ k @ [34, 58] @ showValue v"
| "showMembers ((k, v) # rest) = [34] @ k @ [34, 58] @ showValue v @ [44] @ showMembers rest"

definition sampleRuntime :: runtime where
  "sampleRuntime =
     \<lparr> toLowerCase = asciiLower,
       matchCompany = (\<lambda>m. None), matchContent = (\<lambda>m. None), matchReport = (\<lambda>m. None),
       matchAmount = firstNumber,
       stringify = (\<lambda>ps. [123] @ showMembers ps @ [125]),
       numberToString = (\<lambda>n. showValue (JNumber n)) \<rparr>"

text \<open>
  A default agent and the contexts of the tests (user \<open>test\<close>, channel \<open>slack\<close>); the
  readings \<open>sampleReadings t\<close> are those of a call that runs within the millisecond
  \<open>t\<close>. \<open>helpAgent\<close> has a processor for \<open>help\<close> that throws, \<open>guardedAgent\<close> a plugin
  whose pre-hook throws, \<open>quietAgent\<close> has the history switched off, and \<open>warmAgent\<close> is
  the default agent after one call with \<open>/analyze x\<close>.
\<close>

definition noOptions :: AgentOptions where
  "noOptions = \<lparr> strictMode = None, maxCacheSize = None, enableHistory = None, defaultChannel = None \<rparr>"

definition sampleContext :: "jsstring \<Rightarrow> AgentContext" where
  "sampleContext m =
     \<lparr> user = \<lparr> user_id = ascii ''test'', user_name = ascii ''Test'', roles = [] \<rparr>,
       message = m, channel = Slack, timestamp = 0, artifacts = [] \<rparr>"

definition sampleReadings :: "int \<Rightarrow> readings" where
  "sampleReadings t =
     \<lparr> t_start = t, rnd = 0, t_hasChk = t, t_hasAcc = t, t_getChk = t, t_getAcc = t,
       t_exec = t, new_id = ascii ''id'', t_stamp = t, t_recorded = t, t_setExp = t,
       t_setAcc = t, t_end = t \<rparr>"

definition defaultAgent :: PolicyAgent where
  "defaultAgent = createAgent sampleRuntime noOptions"

definition throwingProcessor :: Processor where
  "throwingProcessor =
     \<lparr> proc_type = ascii ''help'', proc_version = None,
       execute = (\<lambda>ps ctx now. Inl (ErrorObject (ascii ''boom''))) \<rparr>"

definition throwingPlugin :: Plugin where
  "throwingPlugin =
     \<lparr> onBeforeProcess = Some (\<lambda>ctx. Inl (OtherValue (ascii ''stop''))), onAfterProcess = None \<rparr>"

definition helloContext :: AgentContext where
  "helloContext = sampleContext (ascii ''hello'')"

definition analyzeContext :: AgentContext where
  "analyzeContext = sampleContext (ascii ''/analyze x'')"

definition helpContext :: AgentContext where
  "helpContext = sampleContext (ascii ''/help'')"

definition analyzeArtifact :: Artifact where
  "analyzeArtifact = \<lparr> artifact_id = ascii ''compliance-0'',
       artifact_type = ascii ''compliance-report'', artifact_data = [] \<rparr>"

definition analyzeResult :: ProcessorResult where
  "analyzeResult = \<lparr> result_artifact = Some analyzeArtifact, result_success = None, result_error = None \<rparr>"

definition warmAgent :: PolicyAgent where
  "warmAgent = snd (handle sampleRuntime (sampleReadings 0) analyzeContext defaultAgent)"

definition helpAgent :: PolicyAgent where
  "helpAgent = registerProcessor Help throwingProcessor defaultAgent"

definition guardedAgent :: PolicyAgent where
  "guardedAgent = use throwingPlugin defaultAgent"

definition quietAgent :: PolicyAgent where
  "quietAgent = configure (noOptions\<lparr>enableHistory := Some False\<rparr>) defaultAgent"

definition reviewPriceMessage :: jsstring where
  "reviewPriceMessage = ascii ''/review '' @ [20215, 26684]"

section \<open>SmartCache: the counters\<close>

lemma evictLRU_fields:
  "maxSize (evictLRU c) = maxSize c" "ttlMs (evictLRU c) = ttlMs c"
  "hitCount (evictLRU c) = hitCount c" "missCount (evictLRU c) = missCount c"
  by (simp_all add: evictLRU_def split: option.split prod.split)

lemma cache_apply_fields:
  "maxSize (cache_apply c x) = maxSize c" "ttlMs (cache_apply c x) = ttlMs c"
  "hitCount (cache_apply c x) = hitCount c" "missCount (cache_apply c x) = missCount c"
  by (cases x; simp add: cache_set_def cache_get_def cache_has_def cache_delete_def
        cache_clear_def evictLRU_fields Let_def split: option.split prod.split)+

lemma cache_run_fields:
  "maxSize (cache_run c ops) = maxSize c" "ttlMs (cache_run c ops) = ttlMs c"
  "hitCount (cache_run c ops) = hitCount c" "missCount (cache_run c ops) = missCount c"
  unfolding cache_run_def
  by (induction ops arbitrary: c; simp add: cache_apply_fields)+

text \<open>
  C10. Whatever calls are made on a cache (set, get, has, delete, clear, in any order and
  number), \<open>hitCount\<close> and \<open>missCount\<close> keep their initial value 0, so the
  \<open>hitRate\<close> that \<open>getStats\<close> reports is 0.
\<close>

theorem hitRate_always_zero:
  "hitCount (cache_run (newSmartCache opts) ops) = 0
   \<and> missCount (cache_run (newSmartCache opts) ops) = 0
   \<and> stats_hitRate (getStats jsonLength (cache_run (newSmartCache opts) ops)) = 0"
  by (simp add: cache_run_fields getStats_def calculateHitRate_def newSmartCache_def)


section \<open>SmartCache: which entry is evicted\<close>

lemma foldl_lruStep_Some:
  "foldl lruStep (Some (k0, n0, t0)) xs = Some (k, n, t) \<Longrightarrow>
     ((k, n, t) = (k0, n0, t0) \<or> (\<exists>e. (k, e) \<in> set xs \<and> accessCount e = n \<and> lastAccessed e = t))
     \<and> (n < n0 \<or> (n = n0 \<and> t \<le> t0))
     \<and> (\<forall>(k', e') \<in> set xs. n < accessCount e' \<or> (n = accessCount e' \<and> t \<le> lastAccessed e'))"
proof (induction xs arbitrary: k0 n0 t0)
  case Nil
  then show ?case by simp
next
  case (Cons x xs)
  obtain k1 e1 where x: "x = (k1, e1)" by (cases x)
  obtain k2 n2 t2 where st: "lruStep (Some (k0, n0, t0)) (k1, e1) = Some (k2, n2, t2)"
    by atomize_elim auto
  from Cons.prems have "foldl lruStep (Some (k2, n2, t2)) xs = Some (k, n, t)"
    by (simp only: x foldl_Cons st)
  from Cons.IH[OF this] have ih:
    "(k, n, t) = (k2, n2, t2) \<or> (\<exists>e. (k, e) \<in> set xs \<and> accessCount e = n \<and> lastAccessed e = t)"
    "n < n2 \<or> (n = n2 \<and> t \<le> t2)"
    "\<forall>(k', e') \<in> set xs. n < accessCount e' \<or> (n = accessCount e' \<and> t \<le> lastAccessed e')"
    by auto
  from st have s2: "(k2, n2, t2) = (k0, n0, t0) \<or> (k2 = k1 \<and> n2 = accessCount e1 \<and> t2 = lastAccessed e1)"
    by (auto split: if_splits)
  from st have s3: "n2 < n0 \<or> (n2 = n0 \<and> t2 \<le> t0)"
    by (auto split: if_splits)
  from st have s4: "n2 < accessCount e1 \<or> (n2 = accessCount e1 \<and> t2 \<le> lastAccessed e1)"
    by (auto split: if_splits)
  have a: "(k, n, t) = (k0, n0, t0) \<or> (\<exists>e. (k, e) \<in> set (x # xs) \<and> accessCount e = n \<and> lastAccessed e = t)"
    using ih(1) s2 x by auto
  have b: "n < n0 \<or> (n = n0 \<and> t \<le> t0)"
    using ih(2) s3 by auto
  have c: "n < accessCount e1 \<or> (n = accessCount e1 \<and> t \<le> lastAccessed e1)"
    using ih(2) s4 by auto
  show ?case using a b c ih(3) x by simp
qed

lemma lruScan_Nil_iff: "lruScan xs = None \<longleftrightarrow> xs = []"
proof (cases xs)
  case Nil then show ?thesis by (simp add: lruScan_def)
next
  case (Cons x ys)
  obtain k1 e1 where x: "x = (k1, e1)" by (cases x)
  have "\<And>a. foldl lruStep (Some a) ys \<noteq> None"
  proof (induction ys)
    case Nil show ?case by simp
  next
    case (Cons y ys)
    obtain k n t where a: "a = (k, n, t)" by (cases a)
    obtain k' e' where y: "y = (k', e')" by (cases y)
    show ?case using Cons.IH by (simp add: a y)
  qed
  then show ?thesis by (simp add: lruScan_def Cons x)
qed

lemma lruScan_min:
  assumes "lruScan xs = Some (k, n, t)"
  shows "\<exists>e. (k, e) \<in> set xs \<and> accessCount e = n \<and> lastAccessed e = t
     \<and> (\<forall>(k', e') \<in> set xs. accessCount e < accessCount e'
            \<or> (accessCount e = accessCount e' \<and> lastAccessed e \<le> lastAccessed e'))"
proof (cases xs)
  case Nil with assms show ?thesis by (simp add: lruScan_def)
next
  case (Cons x ys)
  obtain k1 e1 where x: "x = (k1, e1)" by (cases x)
  from assms have f: "foldl lruStep (Some (k1, accessCount e1, lastAccessed e1)) ys = Some (k, n, t)"
    by (simp add: lruScan_def Cons x)
  note h = foldl_lruStep_Some[OF f]
  from h have m: "n < accessCount e1 \<or> (n = accessCount e1 \<and> t \<le> lastAccessed e1)" by blast
  from h have r: "\<forall>(k', e') \<in> set ys. n < accessCount e' \<or> (n = accessCount e' \<and> t \<le> lastAccessed e')" by blast
  from h obtain e where e: "(k, e) \<in> set xs" "accessCount e = n" "lastAccessed e = t"
    using Cons x by auto
  show ?thesis using e m r Cons x by auto
qed

lemma scenario_keys:
  assumes "g1 \<le> t1 + ttl" "g2 \<le> t1 + ttl" "a2 \<le> a3"
  shows "map fst (cache (cache_run
      (newSmartCache \<lparr> opt_maxSize = Some 3, opt_ttlMs = Some ttl, opt_prefix = None \<rparr>)
      [Set (ascii ''k1'') v1 t1 a1, Set (ascii ''k2'') v2 t2 a2, Set (ascii ''k3'') v3 t3 a3,
       Get (ascii ''k1'') g1 h1, Get (ascii ''k1'') g2 h2, Set (ascii ''k4'') v4 t4 a4]))
    = [ascii ''k1'', ascii ''k3'', ascii ''k4'']"
  using assms
  by (simp add: cache_run_def newSmartCache_def cache_set_def cache_get_def evictLRU_def
        lruScan_def ascii_def Let_def)

text \<open>
  The policy of the scan: \<open>evictLRU\<close> selects an entry whose \<open>accessCount\<close> is the
  smallest of all and whose \<open>lastAccessed\<close> is the oldest among the entries with that
  count, and removes the selected entry unless its key is the empty string; \<open>set\<close> runs
  the eviction when the cache holds \<open>maxSize\<close> entries or more. With \<open>maxSize = 3\<close>:
  after \<open>set\<close> of k1, k2, k3 in that order and two \<open>get(k1)\<close> that find k1 alive,
  \<open>set(k4)\<close> evicts k2 (the clock not running backwards between the \<open>set\<close> of k2 and
  that of k3).
\<close>

theorem evictLRU_policy:
  "(lruScan (cache c) = Some (k, n, t) \<longrightarrow>
      (\<exists>e. (k, e) \<in> set (cache c) \<and> accessCount e = n \<and> lastAccessed e = t
         \<and> (\<forall>(k', e') \<in> set (cache c). accessCount e < accessCount e'
               \<or> (accessCount e = accessCount e' \<and> lastAccessed e \<le> lastAccessed e')))
      \<and> cache (evictLRU c) = (if k = [] then cache c else AList.delete k (cache c)))
   \<and> (lruScan (cache c) = None \<longrightarrow> cache c = [] \<and> evictLRU c = c)
   \<and> (int (length (cache c)) \<ge> maxSize c \<longrightarrow>
        cache (cache_set key v tExp tAcc c) = AList.update key
          \<lparr> entryValue = v, expiresAt = tExp + ttlMs c, accessCount = 0, lastAccessed = tAcc \<rparr>
          (cache (evictLRU c)))
   \<and> (g1 \<le> t1 + ttl \<and> g2 \<le> t1 + ttl \<and> a2 \<le> a3 \<longrightarrow>
        map fst (cache (cache_run
          (newSmartCache \<lparr> opt_maxSize = Some 3, opt_ttlMs = Some ttl, opt_prefix = None \<rparr>)
          [Set (ascii ''k1'') v1 t1 a1, Set (ascii ''k2'') v2 t2 a2, Set (ascii ''k3'') v3 t3 a3,
           Get (ascii ''k1'') g1 h1, Get (ascii ''k1'') g2 h2, Set (ascii ''k4'') v4 t4 a4]))
        = [ascii ''k1'', ascii ''k3'', ascii ''k4''])"
proof -
  have A: "lruScan (cache c) = Some (k, n, t) \<longrightarrow>
      (\<exists>e. (k, e) \<in> set (cache c) \<and> accessCount e = n \<and> lastAccessed e = t
         \<and> (\<forall>(k', e') \<in> set (cache c). accessCount e < accessCount e'
               \<or> (accessCount e = accessCount e' \<and> lastAccessed e \<le> lastAccessed e')))
      \<and> cache (evictLRU c) = (if k = [] then cache c else AList.delete k (cache c))"
    using lruScan_min[of "cache c" k n t] by (simp add: evictLRU_def)
  have B: "lruScan (cache c) = None \<longrightarrow> cache c = [] \<and> evictLRU c = c"
    using lruScan_Nil_iff[of "cache c"] by (auto simp: evictLRU_def)
  have C: "int (length (cache c)) \<ge> maxSize c \<longrightarrow>
        cache (cache_set key v tExp tAcc c) = AList.update key
          \<lparr> entryValue = v, expiresAt = tExp + ttlMs c, accessCount = 0, lastAccessed = tAcc \<rparr>
          (cache (evictLRU c))"
    by (simp add: cache_set_def Let_def evictLRU_fields)
  have D: "g1 \<le> t1 + ttl \<and> g2 \<le> t1 + ttl \<and> a2 \<le> a3 \<longrightarrow>
        map fst (cache (cache_run
          (newSmartCache \<lparr> opt_maxSize = Some 3, opt_ttlMs = Some ttl, opt_prefix = None \<rparr>)
          [Set (ascii ''k1'') v1 t1 a1, Set (ascii ''k2'') v2 t2 a2, Set (ascii ''k3'') v3 t3 a3,
           Get (ascii ''k1'') g1 h1, Get (ascii ''k1'') g2 h2, Set (ascii ''k4'') v4 t4 a4]))
        = [ascii ''k1'', ascii ''k3'', ascii ''k4'']"
    by (intro impI, elim conjE, rule scenario_keys)
  show ?thesis by (intro conjI) (rule A, rule B, rule C, rule D)
qed

theorem evictLRU_policy_witness:
  "lruScan (cache scenarioCache) = Some (ascii ''k2'', 0, 1)
   \<and> cache (evictLRU scenarioCache) = AList.delete (ascii ''k2'') (cache scenarioCache)
   \<and> int (length (cache scenarioCache)) \<ge> maxSize scenarioCache
   \<and> map fst (cache (cache_set (ascii ''k4'') 4 5 5 scenarioCache))
        = [ascii ''k1'', ascii ''k3'', ascii ''k4'']
   \<and> (3::int) \<le> 0 + 1000 \<and> (4::int) \<le> 0 + 1000 \<and> (1::int) \<le> 2
   \<and> map fst (cache (cache_run
          (newSmartCache \<lparr> opt_maxSize = Some 3, opt_ttlMs = Some 1000, opt_prefix = None \<rparr>)
          [Set (ascii ''k1'') (1::nat) 0 0, Set (ascii ''k2'') 2 1 1, Set (ascii ''k3'') 3 2 2,
           Get (ascii ''k1'') 3 3, Get (ascii ''k1'') 4 4, Set (ascii ''k4'') 4 5 5]))
        = [ascii ''k1'', ascii ''k3'', ascii ''k4'']"
proof -
  have s: "lruScan (cache scenarioCache) = Some (ascii ''k2'', 0, 1)"
    by (simp add: scenarioCache_def cache_run_def newSmartCache_def cache_set_def cache_get_def
          evictLRU_def lruScan_def ascii_def Let_def)
  have l: "int (length (cache scenarioCache)) \<ge> maxSize scenarioCache"
    by (simp add: scenarioCache_def cache_run_def newSmartCache_def cache_set_def cache_get_def
          evictLRU_def lruScan_def ascii_def Let_def)
  have k: "ascii ''k2'' \<noteq> []" by (simp add: ascii_def)
  note T = evictLRU_policy[where c = scenarioCache and k = "ascii ''k2''" and n = 0 and t = 1
      and key = "ascii ''k4''" and v = "4::nat" and tExp = 5 and tAcc = 5
      and ?g1.0 = 3 and ?t1.0 = 0 and ttl = 1000 and ?g2.0 = 4 and ?a2.0 = 1 and ?a3.0 = 2
      and ?v1.0 = "1::nat" and ?a1.0 = 0 and ?v2.0 = "2::nat" and ?t2.0 = 1
      and ?v3.0 = "3::nat" and ?t3.0 = 2
      and ?h1.0 = 3 and ?h2.0 = 4 and ?v4.0 = "4::nat" and ?t4.0 = 5 and ?a4.0 = 5]
  have e: "cache (evictLRU scenarioCache) = AList.delete (ascii ''k2'') (cache scenarioCache)"
    using T s k by simp
  have u: "cache (cache_set (ascii ''k4'') 4 5 5 scenarioCache) = AList.update (ascii ''k4'')
          \<lparr> entryValue = 4, expiresAt = 5 + ttlMs scenarioCache, accessCount = 0, lastAccessed = 5 \<rparr>
          (cache (evictLRU scenarioCache))"
    using T l by blast
  have m: "map fst (cache (cache_set (ascii ''k4'') 4 5 5 scenarioCache))
        = [ascii ''k1'', ascii ''k3'', ascii ''k4'']"
    unfolding u e
    by (simp add: scenarioCache_def cache_run_def newSmartCache_def cache_set_def cache_get_def
          evictLRU_def lruScan_def ascii_def Let_def)
  have r: "map fst (cache (cache_run
          (newSmartCache \<lparr> opt_maxSize = Some 3, opt_ttlMs = Some 1000, opt_prefix = None \<rparr>)
          [Set (ascii ''k1'') (1::nat) 0 0, Set (ascii ''k2'') 2 1 1, Set (ascii ''k3'') 3 2 2,
           Get (ascii ''k1'') 3 3, Get (ascii ''k1'') 4 4, Set (ascii ''k4'') 4 5 5]))
        = [ascii ''k1'', ascii ''k3'', ascii ''k4'']"
    using T by simp
  show ?thesis using s e l m r by simp
qed

text \<open>
  C3 (the defect). With \<open>maxSize = 2\<close>, after \<open>set('', 1)\<close>, \<open>set('b', 2)\<close> and
  \<open>get('b')\<close> the entry \<open>''\<close> has \<open>accessCount\<close> 0 and \<open>'b'\<close> has 1. \<open>set('c', 3)\<close>
  runs the eviction, the scan selects \<open>''\<close>, the entry with the strictly smaller count,
  and the test \<open>if (lruKey)\<close> skips the delete: no entry is evicted and the cache holds
  \<open>''\<close>, \<open>'b'\<close> and \<open>'c'\<close>.
\<close>

theorem eviction_skips_smaller_count:
  "lruScan (cache (cache_run
      (newSmartCache \<lparr> opt_maxSize = Some 2, opt_ttlMs = None, opt_prefix = None \<rparr>)
      [Set [] (1::nat) 0 0, Set (ascii ''b'') 2 1 1, Get (ascii ''b'') 2 2])) = Some ([], 0, 0)
   \<and> map (\<lambda>(k, e). (k, accessCount e)) (cache (cache_run
      (newSmartCache \<lparr> opt_maxSize = Some 2, opt_ttlMs = None, opt_prefix = None \<rparr>)
      [Set [] (1::nat) 0 0, Set (ascii ''b'') 2 1 1, Get (ascii ''b'') 2 2]))
        = [([], 0), (ascii ''b'', 1)]
   \<and> map fst (cache (cache_run
      (newSmartCache \<lparr> opt_maxSize = Some 2, opt_ttlMs = None, opt_prefix = None \<rparr>)
      [Set [] (1::nat) 0 0, Set (ascii ''b'') 2 1 1, Get (ascii ''b'') 2 2,
       Set (ascii ''c'') 3 3 3])) = [[], ascii ''b'', ascii ''c'']"
  by (simp add: cache_run_def newSmartCache_def cache_set_def cache_get_def evictLRU_def
        lruScan_def ascii_def Let_def)

section \<open>SmartCache: expiry\<close>

lemma map_of_evictLRU:
  "map_of (cache (evictLRU c)) k = Some e \<Longrightarrow> map_of (cache c) k = Some e"
  by (auto simp: evictLRU_def delete_conv' split: option.splits prod.splits if_splits)

lemma cache_apply_expiry:
  assumes "\<And>e. map_of (cache c) k = Some e \<Longrightarrow> expiresAt e = X"
    and "\<not> sets_key k x"
    and "map_of (cache (cache_apply c x)) k = Some e'"
  shows "expiresAt e' = X"
proof (cases x)
  case (Set k' v tE tA)
  with assms(2) have ne: "k' \<noteq> k" by simp
  from assms(3) have "map_of (cache (if int (length (cache c)) \<ge> maxSize c then evictLRU c else c)) k = Some e'"
    using ne by (auto simp: Set cache_set_def Let_def update_conv' split: if_splits)
  then have "map_of (cache c) k = Some e'"
    by (auto dest: map_of_evictLRU split: if_splits)
  then show ?thesis by (rule assms(1))
next
  case (Get k' tC tA)
  show ?thesis
  proof (cases "map_of (cache c) k'")
    case None
    with assms(3) Get have "map_of (cache c) k = Some e'" by (simp add: cache_get_def)
    then show ?thesis by (rule assms(1))
  next
    case (Some en)
    show ?thesis
    proof (cases "k' = k")
      case True
      with assms(3) Get Some have "expiresAt e' = expiresAt en"
        by (auto simp: cache_get_def update_conv' delete_conv' split: if_splits)
      with assms(1)[of en] Some True show ?thesis by simp
    next
      case False
      with assms(3) Get Some have "map_of (cache c) k = Some e'"
        by (auto simp: cache_get_def update_conv' delete_conv' split: if_splits)
      then show ?thesis by (rule assms(1))
    qed
  qed
next
  case (Has k' tC tA)
  show ?thesis
  proof (cases "map_of (cache c) k'")
    case None
    with assms(3) Has have "map_of (cache c) k = Some e'" by (simp add: cache_has_def cache_get_def)
    then show ?thesis by (rule assms(1))
  next
    case (Some en)
    show ?thesis
    proof (cases "k' = k")
      case True
      with assms(3) Has Some have "expiresAt e' = expiresAt en"
        by (auto simp: cache_has_def cache_get_def update_conv' delete_conv' split: if_splits)
      with assms(1)[of en] Some True show ?thesis by simp
    next
      case False
      with assms(3) Has Some have "map_of (cache c) k = Some e'"
        by (auto simp: cache_has_def cache_get_def update_conv' delete_conv' split: if_splits)
      then show ?thesis by (rule assms(1))
    qed
  qed
next
  case (Delete k')
  with assms(3) have "map_of (cache c) k = Some e'"
    by (auto simp: cache_delete_def delete_conv' split: if_splits)
  then show ?thesis by (rule assms(1))
next
  case Clear
  with assms(3) show ?thesis by (simp add: cache_clear_def)
qed

lemma cache_run_expiry:
  "(\<And>e. map_of (cache c) k = Some e \<Longrightarrow> expiresAt e = X) \<Longrightarrow>
   \<forall>x \<in> set ops. \<not> sets_key k x \<Longrightarrow>
   map_of (cache (cache_run c ops)) k = Some e' \<Longrightarrow> expiresAt e' = X"
proof (induction ops arbitrary: c)
  case Nil
  then show ?case by (simp add: cache_run_def)
next
  case (Cons x ops)
  have step: "\<And>e. map_of (cache (cache_apply c x)) k = Some e \<Longrightarrow> expiresAt e = X"
    using cache_apply_expiry[of c k X x] Cons.prems(1,2) by simp
  from Cons.prems(3) have "map_of (cache (cache_run (cache_apply c x) ops)) k = Some e'"
    by (simp add: cache_run_def)
  from Cons.IH[OF step _ this] Cons.prems(2) show ?case by simp
qed

lemma cache_set_entry:
  "map_of (cache (cache_set key v t0 a0 c)) key =
     Some \<lparr> entryValue = v, expiresAt = t0 + ttlMs c, accessCount = 0, lastAccessed = a0 \<rparr>"
  by (simp add: cache_set_def Let_def update_conv' evictLRU_fields)

lemma cache_get_expired:
  "map_of (cache c) key = Some e \<Longrightarrow> expiresAt e < tChk \<Longrightarrow>
   cache_get key tChk tAcc c = (None, c\<lparr>cache := AList.delete key (cache c)\<rparr>)"
  by (simp add: cache_get_def)

lemma cache_get_live:
  "map_of (cache c) key = Some e \<Longrightarrow> tChk \<le> expiresAt e \<Longrightarrow>
   cache_get key tChk tAcc c = (Some (entryValue e),
      c\<lparr>cache := AList.update key (e\<lparr>accessCount := accessCount e + 1, lastAccessed := tAcc\<rparr>) (cache c)\<rparr>)"
  by (simp add: cache_get_def)

lemma cache_get_absent_after:
  "(\<And>e. map_of (cache c) key = Some e \<Longrightarrow> expiresAt e < tChk) \<Longrightarrow>
   fst (cache_get key tChk tAcc c) = None \<and> map_of (cache (snd (cache_get key tChk tAcc c))) key = None"
  by (cases "map_of (cache c) key") (auto simp: cache_get_def delete_conv')


text \<open>
  C5. After \<open>set(key)\<close> at time \<open>t0\<close> and any further calls that do not set the key
  again, a \<open>get(key)\<close> or \<open>has(key)\<close> whose clock reading is later than
  \<open>t0 + ttlMs\<close> returns \<open>undefined\<close> / \<open>false\<close> and leaves no entry for the key,
  whatever the size of the cache; a read of an entry that has expired deletes exactly
  that entry; a read of an entry that has not expired returns the stored value,
  increments \<open>accessCount\<close> and sets \<open>lastAccessed\<close> to the reading.
\<close>

theorem ttl_expiry_and_touch:
  "((\<forall>x \<in> set ops. \<not> sets_key key x) \<and> t0 + ttlMs c < tChk \<longrightarrow>
      fst (cache_get key tChk tAcc (cache_run (cache_set key v t0 a0 c) ops)) = None
      \<and> \<not> fst (cache_has key tChk tAcc (cache_run (cache_set key v t0 a0 c) ops))
      \<and> map_of (cache (snd (cache_get key tChk tAcc (cache_run (cache_set key v t0 a0 c) ops)))) key = None
      \<and> map_of (cache (snd (cache_has key tChk tAcc (cache_run (cache_set key v t0 a0 c) ops)))) key = None)
   \<and> (map_of (cache c) key = Some e \<and> expiresAt e < tChk \<longrightarrow>
      cache_get key tChk tAcc c = (None, c\<lparr>cache := AList.delete key (cache c)\<rparr>)
      \<and> cache_has key tChk tAcc c = (False, c\<lparr>cache := AList.delete key (cache c)\<rparr>))
   \<and> (map_of (cache c) key = Some e \<and> tChk \<le> expiresAt e \<longrightarrow>
      fst (cache_get key tChk tAcc c) = Some (entryValue e)
      \<and> map_of (cache (snd (cache_get key tChk tAcc c))) key =
           Some (e\<lparr>accessCount := accessCount e + 1, lastAccessed := tAcc\<rparr>))
   \<and> map_of (cache (cache_set key v t0 a0 c)) key =
        Some \<lparr> entryValue = v, expiresAt = t0 + ttlMs c, accessCount = 0, lastAccessed = a0 \<rparr>"
proof -
  have A: "fst (cache_get key tChk tAcc (cache_run (cache_set key v t0 a0 c) ops)) = None
      \<and> map_of (cache (snd (cache_get key tChk tAcc (cache_run (cache_set key v t0 a0 c) ops)))) key = None"
    if h: "\<forall>x \<in> set ops. \<not> sets_key key x" "t0 + ttlMs c < tChk"
  proof (rule cache_get_absent_after)
    fix e assume "map_of (cache (cache_run (cache_set key v t0 a0 c) ops)) key = Some e"
    then have "expiresAt e = t0 + ttlMs c"
      by (rule cache_run_expiry[rotated 2]) (simp_all add: cache_set_entry h(1))
    with h(2) show "expiresAt e < tChk" by simp
  qed
  have B: "\<not> fst (cache_has k t a d) \<longleftrightarrow> fst (cache_get k t a d) = None"
    "snd (cache_has k t a d) = snd (cache_get k t a d)" for k t a and d :: "'a SmartCache"
    by (simp_all add: cache_has_def split: prod.split)
  have C: "cache_has key tChk tAcc c = (False, c\<lparr>cache := AList.delete key (cache c)\<rparr>)"
    if "map_of (cache c) key = Some e" "expiresAt e < tChk"
    using that by (simp add: cache_has_def cache_get_expired)
  show ?thesis
    using A C by (simp add: B cache_set_entry cache_get_expired cache_get_live update_conv')
qed

theorem ttl_expiry_and_touch_witness:
  "\<not> sets_key (ascii ''key1'') (Has (ascii ''key1'') 50 50 :: nat cache_op)
   \<and> (0::int) + ttlMs ttlCache < 150
   \<and> fst (cache_get (ascii ''key1'') 150 150
        (cache_run (cache_set (ascii ''key1'') 7 0 0 ttlCache) [Has (ascii ''key1'') 50 50])) = None
   \<and> \<not> fst (cache_has (ascii ''key1'') 150 150
        (cache_run (cache_set (ascii ''key1'') 7 0 0 ttlCache) [Has (ascii ''key1'') 50 50]))
   \<and> map_of (cache ttlCache) (ascii ''key1'')
        = Some \<lparr> entryValue = 1, expiresAt = 100, accessCount = 0, lastAccessed = 0 \<rparr>
   \<and> cache_get (ascii ''key1'') 150 150 ttlCache = (None, ttlCache\<lparr>cache := []\<rparr>)
   \<and> fst (cache_get (ascii ''key1'') 50 60 ttlCache) = Some 1
   \<and> map_of (cache (snd (cache_get (ascii ''key1'') 50 60 ttlCache))) (ascii ''key1'')
        = Some \<lparr> entryValue = 1, expiresAt = 100, accessCount = 1, lastAccessed = 60 \<rparr>"
proof -
  have m: "map_of (cache ttlCache) (ascii ''key1'')
        = Some \<lparr> entryValue = 1, expiresAt = 100, accessCount = 0, lastAccessed = 0 \<rparr>"
    by (simp add: ttlCache_def cache_set_def newSmartCache_def Let_def)
  have t: "ttlMs ttlCache = 100"
    by (simp add: ttlCache_def cache_set_def newSmartCache_def Let_def)
  have d: "AList.delete (ascii ''key1'') (cache ttlCache) = []"
    by (simp add: ttlCache_def cache_set_def newSmartCache_def Let_def)
  note E = ttl_expiry_and_touch[where ops = "[Has (ascii ''key1'') 50 50]" and key = "ascii ''key1''"
      and ?t0.0 = 0 and c = ttlCache and tChk = 150 and tAcc = 150 and v = "7::nat" and ?a0.0 = 0
      and e = "\<lparr> entryValue = 1::nat, expiresAt = 100, accessCount = 0, lastAccessed = 0 \<rparr>"]
  note L = ttl_expiry_and_touch[where ops = "[]" and key = "ascii ''key1''"
      and ?t0.0 = 0 and c = ttlCache and tChk = 50 and tAcc = 60 and v = "7::nat" and ?a0.0 = 0
      and e = "\<lparr> entryValue = 1::nat, expiresAt = 100, accessCount = 0, lastAccessed = 0 \<rparr>"]
  show ?thesis using E L by (simp add: m t d)
qed

section \<open>SmartCache: the capacity\<close>

lemma length_delete_distinct:
  "distinct (map fst xs) \<Longrightarrow> k \<in> fst ` set xs \<Longrightarrow> Suc (length (AList.delete k xs)) = length xs"
proof (induction xs)
  case Nil then show ?case by simp
next
  case (Cons x xs)
  show ?case
  proof (cases "fst x = k")
    case True
    with Cons.prems(1) have "k \<notin> fst ` set xs" by auto
    then have "AList.delete k xs = xs" by simp
    with True show ?thesis by simp
  next
    case False
    with Cons show ?thesis by auto
  qed
qed

lemma length_update_le: "length (AList.update k v xs) \<le> Suc (length xs)"
  by (induction xs) auto

lemma length_update_same:
  "k \<in> fst ` set xs \<Longrightarrow> length (AList.update k v xs) = length xs"
  by (induction xs) auto

lemma evictLRU_removes_one:
  assumes "distinct (map fst (cache c))" "[] \<notin> fst ` set (cache c)" "cache c \<noteq> []"
  shows "Suc (length (cache (evictLRU c))) = length (cache c)"
proof -
  from assms(3) obtain k n t where s: "lruScan (cache c) = Some (k, n, t)"
    using lruScan_Nil_iff[of "cache c"] by (cases "lruScan (cache c)") auto
  from lruScan_min[OF s] have k: "k \<in> fst ` set (cache c)" by force
  with assms(2) have "k \<noteq> []" by force
  then have "cache (evictLRU c) = AList.delete k (cache c)"
    by (simp add: evictLRU_def s)
  with length_delete_distinct[OF assms(1) k] show ?thesis by simp
qed

lemma evictLRU_distinct:
  "distinct (map fst (cache c)) \<Longrightarrow> distinct (map fst (cache (evictLRU c)))"
  by (auto simp: evictLRU_def distinct_delete split: option.splits prod.splits)

lemma evictLRU_keys: "fst ` set (cache (evictLRU c)) \<subseteq> fst ` set (cache c)"
proof (cases "lruScan (cache c)")
  case None then show ?thesis by (simp add: evictLRU_def)
next
  case (Some a)
  obtain k n t where a: "a = (k, n, t)" by (cases a)
  show ?thesis using dom_delete_subset[of k "cache c"] by (simp add: evictLRU_def Some a)
qed

lemma cache_set_bounded:
  assumes b: "cache_bounded c" and m: "1 \<le> maxSize c" and k: "key \<noteq> []"
  shows "cache_bounded (cache_set key v tExp tAcc c)"
proof -
  define c1 where "c1 = (if int (length (cache c)) \<ge> maxSize c then evictLRU c else c)"
  define en where "en = \<lparr> entryValue = v, expiresAt = tExp + ttlMs c1, accessCount = 0, lastAccessed = tAcc \<rparr>"
  have d1: "distinct (map fst (cache c1))"
    using b by (simp add: c1_def cache_bounded_def evictLRU_distinct)
  have e1: "[] \<notin> fst ` set (cache c1)"
    using b evictLRU_keys[of c] by (auto simp: c1_def cache_bounded_def)
  have l1: "int (length (cache c1)) < maxSize c"
  proof (cases "int (length (cache c)) \<ge> maxSize c")
    case True
    with m have "cache c \<noteq> []" by auto
    with b have "Suc (length (cache (evictLRU c))) = length (cache c)"
      by (intro evictLRU_removes_one) (simp_all add: cache_bounded_def)
    with b True show ?thesis by (simp add: c1_def cache_bounded_def)
  next
    case False then show ?thesis by (simp add: c1_def)
  qed
  have c': "cache (cache_set key v tExp tAcc c) = AList.update key en (cache c1)"
    by (simp add: cache_set_def Let_def c1_def en_def)
  have mx: "maxSize (cache_set key v tExp tAcc c) = maxSize c"
    using cache_apply_fields(1)[of c "Set key v tExp tAcc"] by simp
  have "int (length (cache (cache_set key v tExp tAcc c))) \<le> maxSize c"
    using l1 length_update_le[of key en "cache c1"] unfolding c' by linarith
  moreover have "distinct (map fst (cache (cache_set key v tExp tAcc c)))"
    unfolding c' using d1 by (rule distinct_update)
  moreover have "[] \<notin> fst ` set (cache (cache_set key v tExp tAcc c))"
    unfolding c' using e1 k by (simp add: dom_update)
  ultimately show ?thesis by (simp add: cache_bounded_def mx)
qed

lemma delete_bounded:
  "cache_bounded c \<Longrightarrow> cache_bounded (c\<lparr>cache := AList.delete key (cache c)\<rparr>)"
  using dom_delete_subset[of key "cache c"] length_delete_le[of key "cache c"]
  by (auto simp: cache_bounded_def distinct_delete)

lemma cache_get_bounded:
  assumes b: "cache_bounded c"
  shows "cache_bounded (snd (cache_get key tChk tAcc c))"
proof (cases "map_of (cache c) key")
  case None then show ?thesis using b by (simp add: cache_get_def)
next
  case (Some e)
  then have kin: "key \<in> fst ` set (cache c)" by (force dest: map_of_SomeD)
  have "cache_bounded (c\<lparr>cache := AList.update key y (cache c)\<rparr>)" for y
    using b kin by (auto simp: cache_bounded_def distinct_update length_update_same dom_update)
  then show ?thesis using delete_bounded[OF b] by (simp add: cache_get_def Some)
qed

lemma cache_has_get:
  "fst (cache_has k t a c) \<longleftrightarrow> fst (cache_get k t a c) \<noteq> None"
  "snd (cache_has k t a c) = snd (cache_get k t a c)"
  by (simp_all add: cache_has_def split: prod.split)

lemma cache_apply_bounded:
  assumes "cache_bounded c" "1 \<le> maxSize c" "key_nonempty x"
  shows "cache_bounded (cache_apply c x)"
proof (cases x)
  case (Set k v tE tA) with assms show ?thesis by (simp add: cache_set_bounded)
next
  case (Get k tC tA) with assms show ?thesis by (simp add: cache_get_bounded)
next
  case (Has k tC tA) with assms cache_get_bounded[of c k tC tA] show ?thesis
    by (simp add: cache_has_get)
next
  case (Delete k) with assms delete_bounded[of c k] show ?thesis by (simp add: cache_delete_def)
next
  case Clear with assms show ?thesis by (simp add: cache_clear_def cache_bounded_def)
qed

lemma cache_run_bounded:
  "cache_bounded c \<Longrightarrow> 1 \<le> maxSize c \<Longrightarrow> \<forall>x \<in> set ops. key_nonempty x \<Longrightarrow>
   cache_bounded (cache_run c ops)"
proof (induction ops arbitrary: c)
  case Nil then show ?case by (simp add: cache_run_def)
next
  case (Cons x ops)
  have "cache_bounded (cache_apply c x)" using Cons.prems by (simp add: cache_apply_bounded)
  moreover have "1 \<le> maxSize (cache_apply c x)" using Cons.prems by (simp add: cache_apply_fields)
  ultimately have "cache_bounded (cache_run (cache_apply c x) ops)"
    using Cons.prems by (intro Cons.IH) simp_all
  then show ?case by (simp add: cache_run_def)
qed


text \<open>
  C2 (the defect). With \<open>maxSize = 1\<close>, \<open>set('', 1)\<close> followed by \<open>set('b', 2)\<close>
  leaves two entries: the scan selects the key \<open>''\<close>, the test \<open>if (lruKey)\<close> takes the
  empty string for "no key", and nothing is deleted before the new entry is stored.
\<close>

theorem eviction_skips_empty_key:
  "cache_size (cache_run
      (newSmartCache \<lparr> opt_maxSize = Some 1, opt_ttlMs = None, opt_prefix = None \<rparr>)
      [Set [] (1::nat) 0 0, Set (ascii ''b'') 2 1 1]) = 2
   \<and> maxSize (cache_run
      (newSmartCache \<lparr> opt_maxSize = Some 1, opt_ttlMs = None, opt_prefix = None \<rparr>)
      [Set [] (1::nat) 0 0, Set (ascii ''b'') 2 1 1]) = 1"
  by (simp add: cache_run_def newSmartCache_def cache_set_def cache_size_def evictLRU_def
        lruScan_def ascii_def Let_def)

text \<open>
  The bound holds where the defect cannot show: for a capacity of at least 1 and calls
  that never store the empty key, no sequence of calls brings the size above
  \<open>maxSize\<close>, and a \<open>set\<close> on a full cache removes exactly one entry first.
\<close>

theorem size_bounded_nonempty_keys:
  "1 \<le> maxSize (newSmartCache opts :: 'v SmartCache) \<Longrightarrow> \<forall>x \<in> set ops. key_nonempty x \<Longrightarrow>
   int (cache_size (cache_run (newSmartCache opts :: 'v SmartCache) ops)) \<le> maxSize (newSmartCache opts :: 'v SmartCache)"
  using cache_run_bounded[of "newSmartCache opts" ops]
  by (simp add: cache_bounded_def cache_size_def cache_run_fields) (simp add: newSmartCache_def)

theorem size_bounded_nonempty_keys_witness:
  "1 \<le> maxSize (newSmartCache \<lparr> opt_maxSize = Some 3, opt_ttlMs = Some 1000, opt_prefix = None \<rparr>
          :: nat SmartCache)
   \<and> key_nonempty (Set (ascii ''k1'') (1::nat) 0 0) \<and> key_nonempty (Set (ascii ''k2'') (2::nat) 1 1)
   \<and> key_nonempty (Set (ascii ''k3'') (3::nat) 2 2) \<and> key_nonempty (Set (ascii ''k4'') (4::nat) 5 5)
   \<and> int (cache_size (cache_run
        (newSmartCache \<lparr> opt_maxSize = Some 3, opt_ttlMs = Some 1000, opt_prefix = None \<rparr>)
        [Set (ascii ''k1'') (1::nat) 0 0, Set (ascii ''k2'') 2 1 1, Set (ascii ''k3'') 3 2 2,
         Set (ascii ''k4'') 4 5 5])) \<le> 3"
  using size_bounded_nonempty_keys[of
      "\<lparr> opt_maxSize = Some 3, opt_ttlMs = Some 1000, opt_prefix = None \<rparr>"
      "[Set (ascii ''k1'') (1::nat) 0 0, Set (ascii ''k2'') 2 1 1, Set (ascii ''k3'') 3 2 2,
        Set (ascii ''k4'') 4 5 5]"]
  by (simp add: newSmartCache_def ascii_def)

section \<open>StateManager: record, undo, redo\<close>

lemma slice_last: "0 < n \<Longrightarrow> slice (- n) None xs = drop (length xs - nat n) xs"
proof -
  assume n: "0 < n"
  have "nat (max (int (length xs) - n) 0) = length xs - nat n" using n by (simp add: max_def) linarith
  then show ?thesis using n by (simp add: slice_def js_index_def Let_def)
qed

lemma slice_front: "0 \<le> n \<Longrightarrow> slice 0 (Some n) xs = take (nat n) xs"
  by (auto simp: slice_def js_index_def Let_def min_def)

lemma recordEntry_at_tail:
  assumes "currentIndex s = int (length (history s)) - 1" "maxHistorySize s = 100"
  shows "history (snd (recordEntry e i n s)) =
           drop (Suc (length (history s)) - 100) (history s @ [makeEntry e i n])"
    and "currentIndex (snd (recordEntry e i n s)) =
           int (length (history (snd (recordEntry e i n s)))) - 1"
    and "maxHistorySize (snd (recordEntry e i n s)) = 100"
  using assms by (auto simp: recordEntry_def Let_def slice_last)

lemma recordAll_snoc:
  "recordAll s (rs @ [(e, i, n)]) = snd (recordEntry e i n (recordAll s rs))"
  by (simp add: recordAll_def)

lemma recordAll_fresh:
  "history (recordAll newStateManager rs) = drop (length rs - 100) (map entryOf rs)
   \<and> currentIndex (recordAll newStateManager rs) = int (min (length rs) 100) - 1
   \<and> maxHistorySize (recordAll newStateManager rs) = 100"
proof (induction rs rule: rev_induct)
  case Nil
  show ?case by (simp add: recordAll_def newStateManager_def)
next
  case (snoc r rs)
  obtain e i n where r: "r = (e, i, n)" by (cases r)
  let ?s = "recordAll newStateManager rs"
  have tail: "currentIndex ?s = int (length (history ?s)) - 1" using snoc by auto
  have mx: "maxHistorySize ?s = 100" using snoc by simp
  note R = recordEntry_at_tail[OF tail mx, of e i n]
  have hs: "history ?s = drop (length rs - 100) (map entryOf rs)" using snoc by simp
  have er: "makeEntry e i n = entryOf r" by (simp add: r entryOf_def)
  have "drop (Suc (length (history ?s)) - 100) (history ?s @ [entryOf r])
          = drop (Suc (length rs) - 100) (map entryOf rs @ [entryOf r])"
  proof (cases "length rs < 100")
    case True then show ?thesis by (simp add: hs)
  next
    case False
    then have l: "length (history ?s) = 100" by (simp add: hs)
    have "Suc 0 + (length rs - 100) = Suc (length rs) - 100" using False by simp
    then show ?thesis using False by (simp add: l) (simp add: hs)
  qed
  then have h: "history (recordAll newStateManager (rs @ [r])) = drop (length (rs @ [r]) - 100) (map entryOf (rs @ [r]))"
    using R(1) by (simp add: r recordAll_snoc er[unfolded r])
  have "currentIndex (recordAll newStateManager (rs @ [r])) = int (length (history (recordAll newStateManager (rs @ [r])))) - 1"
    using R(2) by (simp add: r recordAll_snoc)
  then have c: "currentIndex (recordAll newStateManager (rs @ [r])) = int (min (length (rs @ [r])) 100) - 1"
    unfolding h by auto
  show ?case using h c R(3) by (simp add: r recordAll_snoc)
qed

lemma undo_fields:
  "history (snd (undo s)) = history s" "maxHistorySize (snd (undo s)) = maxHistorySize s"
  "- 1 \<le> currentIndex s \<Longrightarrow> currentIndex (snd (undo s)) = max (- 1) (currentIndex s - 1)"
  by (auto simp: undo_def Let_def)

lemma undoTimes_fields:
  "history (undoTimes m s) = history s"
  "- 1 \<le> currentIndex s \<Longrightarrow> currentIndex (undoTimes m s) = max (- 1) (currentIndex s - int m)"
proof (induction m arbitrary: s)
  case 0
  { case 1 show ?case by simp next
    case 2 then show ?case by simp }
next
  case (Suc m)
  { case 1 show ?case using Suc(1)[of "snd (undo s)"] by (simp add: undo_fields) next
    case 2
    then have "- 1 \<le> currentIndex (snd (undo s))" by (simp add: undo_fields)
    from Suc(2)[OF this] 2 show ?case by (simp add: undo_fields) }
qed

lemma record_undo_state:
  "history (undoTimes m (recordAll newStateManager rs)) = drop (length rs - 100) (map entryOf rs)"
  "currentIndex (undoTimes m (recordAll newStateManager rs)) = max (- 1) (int (min (length rs) 100) - 1 - int m)"
  using recordAll_fresh[of rs] by (simp_all add: undoTimes_fields)

lemma getCurrent_at:
  "currentIndex s = int j \<Longrightarrow> j < length (history s) \<Longrightarrow> getCurrent s = Some (history s ! j)"
  by (simp add: getCurrent_def)

lemma record_undo_current:
  "getCurrent (undoTimes m (recordAll newStateManager rs)) =
     (if m < min (length rs) 100 then Some (entryOf (rs ! (length rs - 1 - m))) else None)"
proof (cases "m < min (length rs) 100")
  case True
  then have ci: "currentIndex (undoTimes m (recordAll newStateManager rs)) = int (min (length rs) 100 - 1 - m)"
    by (simp add: record_undo_state(2))
  have ix: "length rs - 100 + (min (length rs) 100 - 1 - m) = length rs - 1 - m"
    using True by (simp add: min_def split: if_splits)
  have "drop (length rs - 100) (map entryOf rs) ! (min (length rs) 100 - 1 - m)
          = map entryOf rs ! (length rs - 100 + (min (length rs) 100 - 1 - m))"
    using True by (intro nth_drop) simp
  also have "\<dots> = map entryOf rs ! (length rs - 1 - m)" by (simp only: ix)
  also have "\<dots> = entryOf (rs ! (length rs - 1 - m))" using True by (intro nth_map) linarith
  finally have "drop (length rs - 100) (map entryOf rs) ! (min (length rs) 100 - 1 - m) = entryOf (rs ! (length rs - 1 - m))" .
  moreover have "min (length rs) 100 - 1 - m < length (drop (length rs - 100) (map entryOf rs))"
    using True by (simp add: min_def split: if_splits)
  ultimately have "getCurrent (undoTimes m (recordAll newStateManager rs)) = Some (entryOf (rs ! (length rs - 1 - m)))"
    using getCurrent_at[OF ci] by (simp only: record_undo_state(1))
  then show ?thesis using True by simp
next
  case False
  then show ?thesis by (auto simp: getCurrent_def record_undo_state)
qed

text \<open>
  C6 (as amended). After \<open>k\<close> calls of \<open>record\<close> on a fresh StateManager and \<open>m\<close> calls
  of \<open>undo\<close>, the history holds the last \<open>min k 100\<close> recorded entries (\<open>undo\<close> removes
  none; \<open>record\<close> keeps at most \<open>maxHistorySize = 100\<close>), and \<open>getCurrent\<close> returns the
  entry of the call number \<open>k - 1 - m\<close> when \<open>m < min k 100\<close> and \<open>null\<close> otherwise.
  \<open>undo\<close> with the cursor below 0 and \<open>redo\<close> with the cursor at the last index return
  \<open>null\<close> and change nothing.
\<close>

theorem record_undo_algebra:
  "history_size (undoTimes m (recordAll newStateManager rs)) = min (length rs) 100
   \<and> history (undoTimes m (recordAll newStateManager rs)) = drop (length rs - 100) (map entryOf rs)
   \<and> getCurrent (undoTimes m (recordAll newStateManager rs)) =
        (if m < min (length rs) 100 then Some (entryOf (rs ! (length rs - 1 - m))) else None)
   \<and> (currentIndex s < 0 \<longrightarrow> undo s = (None, s))
   \<and> (currentIndex s \<ge> int (length (history s)) - 1 \<longrightarrow> redo s = (None, s))"
  by (simp add: record_undo_current history_size_def record_undo_state(1) undo_def redo_def)

theorem record_undo_algebra_witness:
  "history_size (undoTimes 1 (recordAll newStateManager [(sampleInput, ascii ''a'', 1), (sampleInput, ascii ''b'', 2)])) = 2
   \<and> getCurrent (undoTimes 1 (recordAll newStateManager [(sampleInput, ascii ''a'', 1), (sampleInput, ascii ''b'', 2)]))
        = Some (makeEntry sampleInput (ascii ''a'') 1)
   \<and> currentIndex newStateManager < 0
   \<and> undo newStateManager = (None, newStateManager)
   \<and> currentIndex newStateManager \<ge> int (length (history newStateManager)) - 1
   \<and> redo newStateManager = (None, newStateManager)"
  using record_undo_algebra[of 1 "[(sampleInput, ascii ''a'', 1), (sampleInput, ascii ''b'', 2)]" newStateManager]
  by (simp add: entryOf_def newStateManager_def)


text \<open>
  The claim as stated fails at \<open>k = 101\<close>, \<open>m = 0\<close>: 101 entries are recorded and the
  size is 100.
\<close>

theorem history_cap_counterexample:
  "history_size (undoTimes 0 (recordAll newStateManager (replicate 101 (sampleInput, ascii ''id'', 0)))) = 100
   \<and> history_size (undoTimes 0 (recordAll newStateManager (replicate 101 (sampleInput, ascii ''id'', 0))))
        \<noteq> length (replicate 101 (sampleInput, ascii ''id'', 0))"
  using record_undo_state(1)[of 0 "replicate 101 (sampleInput, ascii ''id'', 0)"]
  by (simp add: history_size_def)

lemma recordEntry_truncates:
  assumes "- 1 \<le> currentIndex s" "currentIndex s < int (length (history s)) - 1"
  shows "history (snd (recordEntry e i n s)) =
     (let h2 = take (nat (currentIndex s + 1)) (history s) @ [makeEntry e i n]
      in if int (length h2) > maxHistorySize s then slice (- maxHistorySize s) None h2 else h2)"
    and "currentIndex (snd (recordEntry e i n s)) = int (length (history (snd (recordEntry e i n s)))) - 1"
  using assms by (simp_all add: recordEntry_def Let_def slice_front)


text \<open>
  C7. On a fresh StateManager, \<open>record(e1); record(e2); undo(); record(e3)\<close> leaves
  size 2 and \<open>recent(2) = [e1, e3]\<close>, and the state is the one that
  \<open>record(e1); record(e3)\<close> reaches, so no operation can tell that \<open>e2\<close> was ever
  recorded. In general a \<open>record\<close> with the cursor before the last index keeps the
  entries up to the cursor, appends the new one (then applies the cap) and moves the
  cursor to the last index.
\<close>

theorem truncate_on_record:
  "history_size (snd (recordEntry e3 i3 n3 (snd (undo (snd (recordEntry e2 i2 n2
       (snd (recordEntry e1 i1 n1 newStateManager)))))))) = 2
   \<and> recent 2 (snd (recordEntry e3 i3 n3 (snd (undo (snd (recordEntry e2 i2 n2
       (snd (recordEntry e1 i1 n1 newStateManager))))))))
        = [makeEntry e1 i1 n1, makeEntry e3 i3 n3]
   \<and> snd (recordEntry e3 i3 n3 (snd (undo (snd (recordEntry e2 i2 n2
       (snd (recordEntry e1 i1 n1 newStateManager)))))))
        = snd (recordEntry e3 i3 n3 (snd (recordEntry e1 i1 n1 newStateManager)))
   \<and> (- 1 \<le> currentIndex s \<and> currentIndex s < int (length (history s)) - 1 \<longrightarrow>
        history (snd (recordEntry e i n s)) =
          (let h2 = take (nat (currentIndex s + 1)) (history s) @ [makeEntry e i n]
           in if int (length h2) > maxHistorySize s then slice (- maxHistorySize s) None h2 else h2)
        \<and> currentIndex (snd (recordEntry e i n s))
            = int (length (history (snd (recordEntry e i n s)))) - 1)"
proof -
  have a: "snd (recordEntry e1 i1 n1 newStateManager)
      = \<lparr> history = [makeEntry e1 i1 n1], currentIndex = 0, maxHistorySize = 100 \<rparr>"
    by (simp add: recordEntry_def newStateManager_def Let_def)
  have b: "snd (recordEntry e2 i2 n2 \<lparr> history = [makeEntry e1 i1 n1], currentIndex = 0, maxHistorySize = 100 \<rparr>)
      = \<lparr> history = [makeEntry e1 i1 n1, makeEntry e2 i2 n2], currentIndex = 1, maxHistorySize = 100 \<rparr>"
    by (simp add: recordEntry_def Let_def)
  have c: "snd (undo \<lparr> history = [makeEntry e1 i1 n1, makeEntry e2 i2 n2], currentIndex = 1, maxHistorySize = 100 \<rparr>)
      = \<lparr> history = [makeEntry e1 i1 n1, makeEntry e2 i2 n2], currentIndex = 0, maxHistorySize = 100 \<rparr>"
    by (simp add: undo_def Let_def)
  have d: "snd (recordEntry e3 i3 n3 \<lparr> history = [makeEntry e1 i1 n1, makeEntry e2 i2 n2], currentIndex = 0, maxHistorySize = 100 \<rparr>)
      = \<lparr> history = [makeEntry e1 i1 n1, makeEntry e3 i3 n3], currentIndex = 1, maxHistorySize = 100 \<rparr>"
    by (simp add: recordEntry_def Let_def slice_front)
  have d': "snd (recordEntry e3 i3 n3 \<lparr> history = [makeEntry e1 i1 n1], currentIndex = 0, maxHistorySize = 100 \<rparr>)
      = \<lparr> history = [makeEntry e1 i1 n1, makeEntry e3 i3 n3], currentIndex = 1, maxHistorySize = 100 \<rparr>"
    by (simp add: recordEntry_def Let_def)
  have r: "recent 2 \<lparr> history = [makeEntry e1 i1 n1, makeEntry e3 i3 n3], currentIndex = 1, maxHistorySize = 100 \<rparr>
      = [makeEntry e1 i1 n1, makeEntry e3 i3 n3]"
    by (simp add: recent_def slice_last)
  have P1: "history_size (snd (recordEntry e3 i3 n3 (snd (undo (snd (recordEntry e2 i2 n2
       (snd (recordEntry e1 i1 n1 newStateManager)))))))) = 2"
    by (simp add: a b c d history_size_def)
  have P2: "recent 2 (snd (recordEntry e3 i3 n3 (snd (undo (snd (recordEntry e2 i2 n2
       (snd (recordEntry e1 i1 n1 newStateManager))))))))
        = [makeEntry e1 i1 n1, makeEntry e3 i3 n3]"
    by (simp add: a b c d r)
  have P3: "snd (recordEntry e3 i3 n3 (snd (undo (snd (recordEntry e2 i2 n2
       (snd (recordEntry e1 i1 n1 newStateManager)))))))
        = snd (recordEntry e3 i3 n3 (snd (recordEntry e1 i1 n1 newStateManager)))"
    by (simp add: a b c d d')
  have G: "- 1 \<le> currentIndex s \<and> currentIndex s < int (length (history s)) - 1 \<longrightarrow>
        history (snd (recordEntry e i n s)) =
          (let h2 = take (nat (currentIndex s + 1)) (history s) @ [makeEntry e i n]
           in if int (length h2) > maxHistorySize s then slice (- maxHistorySize s) None h2 else h2)
        \<and> currentIndex (snd (recordEntry e i n s))
            = int (length (history (snd (recordEntry e i n s)))) - 1"
    using recordEntry_truncates[of s e i n] by blast
  show ?thesis by (intro conjI) (rule P1, rule P2, rule P3, rule G)
qed

theorem truncate_on_record_witness:
  "- 1 \<le> currentIndex (snd (undo (recordAll newStateManager [(sampleInput, ascii ''a'', 1), (sampleInput, ascii ''b'', 2)])))
   \<and> currentIndex (snd (undo (recordAll newStateManager [(sampleInput, ascii ''a'', 1), (sampleInput, ascii ''b'', 2)])))
        < int (length (history (snd (undo (recordAll newStateManager [(sampleInput, ascii ''a'', 1), (sampleInput, ascii ''b'', 2)]))))) - 1
   \<and> history (snd (recordEntry sampleInput (ascii ''c'') 3
         (snd (undo (recordAll newStateManager [(sampleInput, ascii ''a'', 1), (sampleInput, ascii ''b'', 2)])))))
       = [makeEntry sampleInput (ascii ''a'') 1, makeEntry sampleInput (ascii ''c'') 3]"
  using truncate_on_record[of sampleInput "ascii ''c''" 3 sampleInput "ascii ''b''" 2 sampleInput "ascii ''a''" 1
     "snd (undo (recordAll newStateManager [(sampleInput, ascii ''a'', 1), (sampleInput, ascii ''b'', 2)]))"
     sampleInput "ascii ''c''" 3]
  by (simp add: recordAll_def recordEntry_def newStateManager_def undo_def Let_def slice_front)


section \<open>Recognizer: ordered classification\<close>

lemma matchAny_iff: "matchAny ps s \<longleftrightarrow> (\<exists>p \<in> set ps. test p s)"
  by (induction ps) auto

lemma patterns_table:
  "patterns = [(Analyze, patternsOf Analyze), (Review, patternsOf Review),
     (Pricing, patternsOf Pricing), (Export, patternsOf Export), (Help, patternsOf Help),
     (Unknown, patternsOf Unknown)]"
  by (simp add: patterns_def patternsOf_def)

lemma scanTable_patterns:
  "scanTable patterns s =
     (if matchesType Analyze s then Some Analyze
      else if matchesType Review s then Some Review
      else if matchesType Pricing s then Some Pricing
      else if matchesType Export s then Some Export
      else if matchesType Help s then Some Help
      else None)"
  unfolding patterns_table by (simp add: matchAny_iff matchesType_def del: matchAny.simps)

text \<open>
  C9. \<open>recognize\<close> goes through the table in the order analyze, review, pricing, export,
  help: the result has the first type of which some pattern matches the trimmed,
  lower-cased message (with the parameters \<open>extractParams\<close> takes from the message);
  when no pattern of any type matches, the result is type \<open>unknown\<close>, parameters
  \<open>{ raw: message }\<close> and confidence 0.5.
\<close>

theorem recognize_ordered:
  "map fst patterns = tableOrder @ [Unknown]
   \<and> (ty \<in> set tableOrder \<and> matchesType ty (toLowerCase E (trim msg))
        \<and> (\<forall>ty' \<in> set (takeWhile (\<lambda>x. x \<noteq> ty) tableOrder).
               \<not> matchesType ty' (toLowerCase E (trim msg)))
      \<longrightarrow> recognize E x msg =
            \<lparr> intentType = ty, params = extractParams E msg ty,
              confidence = 85 / 100 + x * (1 / 10) \<rparr>)
   \<and> ((\<forall>ty' \<in> set tableOrder. \<not> matchesType ty' (toLowerCase E (trim msg)))
      \<longrightarrow> recognize E x msg =
            \<lparr> intentType = Unknown, params = [(ascii ''raw'', JString msg)],
              confidence = 1 / 2 \<rparr>)"
proof -
  have A: "map fst patterns = tableOrder @ [Unknown]"
    by (simp add: patterns_def tableOrder_def)
  have B: "recognize E x msg =
            \<lparr> intentType = ty, params = extractParams E msg ty,
              confidence = 85 / 100 + x * (1 / 10) \<rparr>"
    if "ty \<in> set tableOrder" "matchesType ty (toLowerCase E (trim msg))"
       "\<forall>ty' \<in> set (takeWhile (\<lambda>x. x \<noteq> ty) tableOrder). \<not> matchesType ty' (toLowerCase E (trim msg))"
  proof -
    from that(1) consider "ty = Analyze" | "ty = Review" | "ty = Pricing" | "ty = Export" | "ty = Help"
      by (auto simp: tableOrder_def)
    then show ?thesis
    proof cases
      case 1 with that(2,3) show ?thesis
        by (simp add: tableOrder_def recognize_def scanTable_patterns Let_def)
    next
      case 2 with that(2,3) show ?thesis
        by (simp add: tableOrder_def recognize_def scanTable_patterns Let_def)
    next
      case 3 with that(2,3) show ?thesis
        by (simp add: tableOrder_def recognize_def scanTable_patterns Let_def)
    next
      case 4 with that(2,3) show ?thesis
        by (simp add: tableOrder_def recognize_def scanTable_patterns Let_def)
    next
      case 5 with that(2,3) show ?thesis
        by (simp add: tableOrder_def recognize_def scanTable_patterns Let_def)
    qed
  qed
  have C: "recognize E x msg =
            \<lparr> intentType = Unknown, params = [(ascii ''raw'', JString msg)],
              confidence = 1 / 2 \<rparr>"
    if "\<forall>ty' \<in> set tableOrder. \<not> matchesType ty' (toLowerCase E (trim msg))"
    using that by (simp add: tableOrder_def recognize_def scanTable_patterns Let_def)
  show ?thesis using A B C by blast
qed

section \<open>PolicyAgent: the paths of handle\<close>

lemma handle_before_throws:
  assumes "runBefore (plugins a) ctx0 = Inl e"
  shows "handle E r ctx0 a = (failure r (error_message e), a)"
  using assms by (simp add: handle_def handle_try_def failure_def)

lemma handle_hit:
  assumes "runBefore (plugins a) ctx0 = Inr ctx" "isHit E r ctx a"
  shows "handle E r ctx0 a =
     (\<lparr> success = True,
        artifact = fst (cache_get (keyOf E r ctx) (t_getChk r) (t_getAcc r) (afterHas E r ctx a)),
        fromCache = Some True, duration = t_end r - t_start r, error = None \<rparr>,
      a\<lparr>agentCache := snd (cache_get (keyOf E r ctx) (t_getChk r) (t_getAcc r) (afterHas E r ctx a))\<rparr>)"
  using assms
  by (simp add: handle_def handle_try_def Let_def case_prod_beta isHit_def afterHas_def keyOf_def intentOf_def)

lemma handle_missing:
  assumes "runBefore (plugins a) ctx0 = Inr ctx" "\<not> isHit E r ctx a"
    "processors a (intentType (intentOf E r ctx)) = None"
  shows "handle E r ctx0 a =
     (failure r (notFoundPrefix @ type_name (intentType (intentOf E r ctx))),
      a\<lparr>agentCache := afterHas E r ctx a\<rparr>)"
  using assms
  by (simp add: handle_def handle_try_def Let_def case_prod_beta isHit_def afterHas_def keyOf_def
        intentOf_def failure_def)

lemma handle_execute_throws:
  assumes "runBefore (plugins a) ctx0 = Inr ctx" "\<not> isHit E r ctx a"
    "processors a (intentType (intentOf E r ctx)) = Some p"
    "execute p (params (intentOf E r ctx)) ctx (t_exec r) = Inl e"
  shows "handle E r ctx0 a =
     (failure r (error_message e),
      a\<lparr>agentCache := afterHas E r ctx a, executions := executions a + 1\<rparr>)"
  using assms
  by (simp add: handle_def handle_try_def Let_def case_prod_beta isHit_def afterHas_def keyOf_def
        intentOf_def failure_def)

lemma handle_after_throws:
  assumes "runBefore (plugins a) ctx0 = Inr ctx" "\<not> isHit E r ctx a"
    "processors a (intentType (intentOf E r ctx)) = Some p"
    "execute p (params (intentOf E r ctx)) ctx (t_exec r) = Inr res"
    "runAfter (plugins a) ctx res = Inl e"
  shows "handle E r ctx0 a =
     (failure r (error_message e),
      a\<lparr>agentCache := afterHas E r ctx a, executions := executions a + 1,
        stateManager := (if enableHistory (options a) = Some True
           then snd (recordEntry (historyInput E r ctx res) (new_id r) (t_stamp r) (stateManager a))
           else stateManager a)\<rparr>)"
  using assms
  by (simp add: handle_def handle_try_def Let_def case_prod_beta isHit_def afterHas_def keyOf_def
        intentOf_def failure_def historyInput_def)

lemma handle_success:
  assumes "runBefore (plugins a) ctx0 = Inr ctx" "\<not> isHit E r ctx a"
    "processors a (intentType (intentOf E r ctx)) = Some p"
    "execute p (params (intentOf E r ctx)) ctx (t_exec r) = Inr res"
    "runAfter (plugins a) ctx res = Inr u"
  shows "handle E r ctx0 a =
     (\<lparr> success = True, artifact = result_artifact res, fromCache = Some False,
        duration = t_end r - t_start r, error = None \<rparr>,
      a\<lparr>agentCache := (case result_artifact res of
            Some art \<Rightarrow> cache_set (keyOf E r ctx) art (t_setExp r) (t_setAcc r) (afterHas E r ctx a)
          | None \<Rightarrow> afterHas E r ctx a),
        executions := executions a + 1,
        stateManager := (if enableHistory (options a) = Some True
           then snd (recordEntry (historyInput E r ctx res) (new_id r) (t_stamp r) (stateManager a))
           else stateManager a)\<rparr>)"
  using assms
  by (simp add: handle_def handle_try_def Let_def case_prod_beta isHit_def afterHas_def keyOf_def
        intentOf_def failure_def historyInput_def split: option.split)


section \<open>PolicyAgent: cached keys have processors\<close>















section \<open>PolicyAgent: dispatch and history\<close>


lemma cache_get_live_has:
  assumes "map_of (cache c) k = Some e" "t \<le> expiresAt e"
  shows "fst (cache_has k t u c)"
    and "map_of (cache (snd (cache_has k t u c))) k
           = Some (e\<lparr>accessCount := accessCount e + 1, lastAccessed := u\<rparr>)"
  using assms by (simp_all add: cache_has_get cache_get_live update_conv')


text \<open>
  C4 (as amended). \<open>handle\<close> records a history entry exactly when a processor was found
  on a cache miss and returned without throwing, and history is enabled: then the
  history is the result of one \<open>record\<close> of the intent, the processor's result and the
  elapsed time. When a pre-hook throws, on a cache hit, on a missing processor, when
  the processor throws, or with history disabled, the history is unchanged.
\<close>

theorem history_recorded_on_execution:
  "(runBefore (plugins a) ctx0 = Inl e
      \<longrightarrow> stateManager (snd (handle E r ctx0 a)) = stateManager a)
   \<and> (runBefore (plugins a) ctx0 = Inr ctx \<and> isHit E r ctx a
      \<longrightarrow> stateManager (snd (handle E r ctx0 a)) = stateManager a)
   \<and> (runBefore (plugins a) ctx0 = Inr ctx \<and> \<not> isHit E r ctx a
        \<and> processors a (intentType (intentOf E r ctx)) = None
      \<longrightarrow> stateManager (snd (handle E r ctx0 a)) = stateManager a)
   \<and> (runBefore (plugins a) ctx0 = Inr ctx \<and> \<not> isHit E r ctx a
        \<and> processors a (intentType (intentOf E r ctx)) = Some p
        \<and> execute p (params (intentOf E r ctx)) ctx (t_exec r) = Inl e
      \<longrightarrow> stateManager (snd (handle E r ctx0 a)) = stateManager a)
   \<and> (runBefore (plugins a) ctx0 = Inr ctx \<and> \<not> isHit E r ctx a
        \<and> processors a (intentType (intentOf E r ctx)) = Some p
        \<and> execute p (params (intentOf E r ctx)) ctx (t_exec r) = Inr res
        \<and> enableHistory (options a) = Some True
      \<longrightarrow> stateManager (snd (handle E r ctx0 a))
            = snd (recordEntry (historyInput E r ctx res) (new_id r) (t_stamp r) (stateManager a))
          \<and> fst (recordEntry (historyInput E r ctx res) (new_id r) (t_stamp r) (stateManager a))
            = \<lparr> entry_id = new_id r, entry_intent = intentOf E r ctx, entry_result = res,
                entry_timestamp = t_stamp r, entry_duration = t_recorded r - t_start r,
                entry_metadata = None \<rparr>)
   \<and> (runBefore (plugins a) ctx0 = Inr ctx \<and> \<not> isHit E r ctx a
        \<and> processors a (intentType (intentOf E r ctx)) = Some p
        \<and> execute p (params (intentOf E r ctx)) ctx (t_exec r) = Inr res
        \<and> enableHistory (options a) \<noteq> Some True
      \<longrightarrow> stateManager (snd (handle E r ctx0 a)) = stateManager a)"
proof -
  have A: "runBefore (plugins a) ctx0 = Inl e
      \<longrightarrow> stateManager (snd (handle E r ctx0 a)) = stateManager a"
    by (simp add: handle_before_throws)
  have B: "runBefore (plugins a) ctx0 = Inr ctx \<and> isHit E r ctx a
      \<longrightarrow> stateManager (snd (handle E r ctx0 a)) = stateManager a"
    by (simp add: handle_hit)
  have C: "runBefore (plugins a) ctx0 = Inr ctx \<and> \<not> isHit E r ctx a
        \<and> processors a (intentType (intentOf E r ctx)) = None
      \<longrightarrow> stateManager (snd (handle E r ctx0 a)) = stateManager a"
    by (simp add: handle_missing)
  have D: "runBefore (plugins a) ctx0 = Inr ctx \<and> \<not> isHit E r ctx a
        \<and> processors a (intentType (intentOf E r ctx)) = Some p
        \<and> execute p (params (intentOf E r ctx)) ctx (t_exec r) = Inl e
      \<longrightarrow> stateManager (snd (handle E r ctx0 a)) = stateManager a"
    by (simp add: handle_execute_throws)
  have st: "stateManager (snd (handle E r ctx0 a)) =
        (if enableHistory (options a) = Some True
         then snd (recordEntry (historyInput E r ctx res) (new_id r) (t_stamp r) (stateManager a))
         else stateManager a)"
    if h: "runBefore (plugins a) ctx0 = Inr ctx" "\<not> isHit E r ctx a"
        "processors a (intentType (intentOf E r ctx)) = Some p"
        "execute p (params (intentOf E r ctx)) ctx (t_exec r) = Inr res"
  proof (cases "runAfter (plugins a) ctx res")
    case (Inl e')
    show ?thesis by (simp add: handle_after_throws[OF h Inl])
  next
    case (Inr u)
    show ?thesis by (simp add: handle_success[OF h Inr])
  qed
  have en: "fst (recordEntry (historyInput E r ctx res) (new_id r) (t_stamp r) (stateManager a))
            = \<lparr> entry_id = new_id r, entry_intent = intentOf E r ctx, entry_result = res,
                entry_timestamp = t_stamp r, entry_duration = t_recorded r - t_start r,
                entry_metadata = None \<rparr>"
    by (simp add: recordEntry_def Let_def makeEntry_def historyInput_def)
  have F: "runBefore (plugins a) ctx0 = Inr ctx \<and> \<not> isHit E r ctx a
        \<and> processors a (intentType (intentOf E r ctx)) = Some p
        \<and> execute p (params (intentOf E r ctx)) ctx (t_exec r) = Inr res
        \<and> enableHistory (options a) = Some True
      \<longrightarrow> stateManager (snd (handle E r ctx0 a))
            = snd (recordEntry (historyInput E r ctx res) (new_id r) (t_stamp r) (stateManager a))
          \<and> fst (recordEntry (historyInput E r ctx res) (new_id r) (t_stamp r) (stateManager a))
            = \<lparr> entry_id = new_id r, entry_intent = intentOf E r ctx, entry_result = res,
                entry_timestamp = t_stamp r, entry_duration = t_recorded r - t_start r,
                entry_metadata = None \<rparr>"
    using st en by simp
  have G: "runBefore (plugins a) ctx0 = Inr ctx \<and> \<not> isHit E r ctx a
        \<and> processors a (intentType (intentOf E r ctx)) = Some p
        \<and> execute p (params (intentOf E r ctx)) ctx (t_exec r) = Inr res
        \<and> enableHistory (options a) \<noteq> Some True
      \<longrightarrow> stateManager (snd (handle E r ctx0 a)) = stateManager a"
    using st by simp
  show ?thesis by (intro conjI) (rule A, rule B, rule C, rule D, rule F, rule G)
qed

section \<open>PolicyAgent: instances\<close>

lemma readings_at:
  "t_start (sampleReadings t) = t" "rnd (sampleReadings t) = 0"
  "t_hasChk (sampleReadings t) = t" "t_hasAcc (sampleReadings t) = t"
  "t_getChk (sampleReadings t) = t" "t_getAcc (sampleReadings t) = t"
  "t_exec (sampleReadings t) = t" "new_id (sampleReadings t) = ascii ''id''"
  "t_stamp (sampleReadings t) = t" "t_recorded (sampleReadings t) = t"
  "t_setExp (sampleReadings t) = t" "t_setAcc (sampleReadings t) = t"
  "t_end (sampleReadings t) = t"
  by (simp_all add: sampleReadings_def)

lemmas eval_defs = recognize_def sampleRuntime_def asciiLower_def trim_def isWhiteSpace_def
  ascii_def patterns_def canon_def Let_def extractParams_def

lemma recognize_hello:
  "recognize sampleRuntime x (ascii ''hello'') =
     \<lparr> intentType = Unknown, params = [(ascii ''raw'', JString (ascii ''hello''))], confidence = 1 / 2 \<rparr>"
  by (simp add: eval_defs)

lemma recognize_analyze:
  "recognize sampleRuntime x (ascii ''/analyze x'') =
     \<lparr> intentType = Analyze, params = [], confidence = 85 / 100 + x * (1 / 10) \<rparr>"
  by (simp add: eval_defs)

lemma recognize_help:
  "recognize sampleRuntime x (ascii ''/help'') =
     \<lparr> intentType = Help, params = [], confidence = 85 / 100 + x * (1 / 10) \<rparr>"
  by (simp add: eval_defs)

lemma defaultAgent_fields:
  "plugins defaultAgent = []" "cache (agentCache defaultAgent) = []"
  "ttlMs (agentCache defaultAgent) = 300000" "maxSize (agentCache defaultAgent) = 100"
  "stateManager defaultAgent = newStateManager" "executions defaultAgent = 0"
  "enableHistory (options defaultAgent) = Some True"
  "processors defaultAgent Unknown = None" "processors defaultAgent Help = None"
  "processors defaultAgent Analyze = Some (createComplianceProcessor sampleRuntime)"
  by (simp_all add: defaultAgent_def createAgent_def noOptions_def mergeOptions_def defaultOptions_def
        newSmartCache_def initDefaultProcessors_def Let_def)

lemma intent_hello: "intentOf sampleRuntime (sampleReadings t) (sampleContext (ascii ''hello''))
    = \<lparr> intentType = Unknown, params = [(ascii ''raw'', JString (ascii ''hello''))], confidence = 1 / 2 \<rparr>"
  by (simp add: intentOf_def sampleContext_def recognize_hello)

lemma intent_analyze: "intentOf sampleRuntime (sampleReadings t) (sampleContext (ascii ''/analyze x''))
    = \<lparr> intentType = Analyze, params = [], confidence = 85 / 100 \<rparr>"
  by (simp add: intentOf_def sampleContext_def recognize_analyze readings_at)

lemma intent_help: "intentOf sampleRuntime (sampleReadings t) (sampleContext (ascii ''/help''))
    = \<lparr> intentType = Help, params = [], confidence = 85 / 100 \<rparr>"
  by (simp add: intentOf_def sampleContext_def recognize_help readings_at)

lemma miss_empty: "cache (agentCache a) = [] \<Longrightarrow> \<not> isHit E r ctx a"
  by (simp add: isHit_def cache_has_def cache_get_def)

lemma afterHas_empty: "cache (agentCache a) = [] \<Longrightarrow> afterHas E r ctx a = agentCache a"
  by (simp add: afterHas_def cache_has_def cache_get_def)

lemma handle_hello:
  "handle sampleRuntime (sampleReadings t) (sampleContext (ascii ''hello'')) defaultAgent =
     (failure (sampleReadings t) (notFoundPrefix @ ascii ''unknown''), defaultAgent)"
proof -
  have b: "runBefore (plugins defaultAgent) (sampleContext (ascii ''hello'')) = Inr (sampleContext (ascii ''hello''))"
    by (simp add: defaultAgent_fields)
  have m: "\<not> isHit sampleRuntime (sampleReadings t) (sampleContext (ascii ''hello'')) defaultAgent"
    by (simp add: miss_empty defaultAgent_fields)
  have p: "processors defaultAgent (intentType (intentOf sampleRuntime (sampleReadings t) (sampleContext (ascii ''hello'')))) = None"
    by (simp add: intent_hello defaultAgent_fields)
  show ?thesis
    by (simp add: handle_missing[OF b m p] intent_hello afterHas_empty defaultAgent_fields)
qed

lemma decimal_0: "decimal 0 = [48]"
  by (subst decimal.simps) simp

lemma intent_A: "intentOf sampleRuntime (sampleReadings t) analyzeContext
    = \<lparr> intentType = Analyze, params = [], confidence = 85 / 100 \<rparr>"
  by (simp add: analyzeContext_def intent_analyze)

lemma intent_H: "intentOf sampleRuntime (sampleReadings t) helloContext
    = \<lparr> intentType = Unknown, params = [(ascii ''raw'', JString (ascii ''hello''))], confidence = 1 / 2 \<rparr>"
  by (simp add: helloContext_def intent_hello)

lemma intent_P: "intentOf sampleRuntime (sampleReadings t) helpContext
    = \<lparr> intentType = Help, params = [], confidence = 85 / 100 \<rparr>"
  by (simp add: helpContext_def intent_help)

lemma execute_A:
  "execute (createComplianceProcessor sampleRuntime) [] analyzeContext 0 = Inr analyzeResult"
  by (simp add: createComplianceProcessor_def defaultProcessor_def sampleRuntime_def decimal_0
        analyzeResult_def analyzeArtifact_def ascii_def)

lemma key_A: "keyOf sampleRuntime (sampleReadings t) analyzeContext = ascii ''slack:analyze:{}''"
  by (simp add: keyOf_def generateCacheKey_def intent_A)
     (simp add: analyzeContext_def sampleContext_def sampleRuntime_def ascii_def)

lemma handle_A:
  "handle sampleRuntime (sampleReadings 0) analyzeContext defaultAgent =
     (\<lparr> success = True, artifact = Some analyzeArtifact, fromCache = Some False,
        duration = 0, error = None \<rparr>,
      defaultAgent\<lparr>agentCache := cache_set (ascii ''slack:analyze:{}'') analyzeArtifact 0 0
                        (agentCache defaultAgent),
        executions := 1,
        stateManager := snd (recordEntry
           (historyInput sampleRuntime (sampleReadings 0) analyzeContext analyzeResult)
           (ascii ''id'') 0 newStateManager)\<rparr>)"
proof -
  have b: "runBefore (plugins defaultAgent) analyzeContext = Inr analyzeContext"
    by (simp add: defaultAgent_fields)
  have m: "\<not> isHit sampleRuntime (sampleReadings 0) analyzeContext defaultAgent"
    by (simp add: miss_empty defaultAgent_fields)
  have p: "processors defaultAgent (intentType (intentOf sampleRuntime (sampleReadings 0) analyzeContext))
      = Some (createComplianceProcessor sampleRuntime)"
    by (simp add: intent_A defaultAgent_fields)
  have x: "execute (createComplianceProcessor sampleRuntime)
      (params (intentOf sampleRuntime (sampleReadings 0) analyzeContext)) analyzeContext
      (t_exec (sampleReadings 0)) = Inr analyzeResult"
    by (simp add: intent_A execute_A readings_at)
  have u: "runAfter (plugins defaultAgent) analyzeContext analyzeResult = Inr ()"
    by (simp add: defaultAgent_fields)
  show ?thesis
    by (simp add: handle_success[OF b m p x u] key_A afterHas_empty defaultAgent_fields
          analyzeResult_def readings_at)
qed

lemma warmAgent_fields:
  "plugins warmAgent = []"
  "map_of (cache (agentCache warmAgent)) (ascii ''slack:analyze:{}'')
     = Some \<lparr> entryValue = analyzeArtifact, expiresAt = 300000, accessCount = 0, lastAccessed = 0 \<rparr>"
  "stateManager warmAgent = snd (recordEntry
           (historyInput sampleRuntime (sampleReadings 0) analyzeContext analyzeResult)
           (ascii ''id'') 0 newStateManager)"
  "executions warmAgent = 1"
  by (simp_all add: warmAgent_def handle_A defaultAgent_fields cache_set_entry)

lemma warm_hit: "isHit sampleRuntime (sampleReadings 1) analyzeContext warmAgent"
  unfolding isHit_def key_A
  by (rule cache_get_live_has(1)[OF warmAgent_fields(2)]) (simp add: readings_at)


text \<open>
  The claim C4 as stated fails on a default agent (history enabled): the call with
  \<open>hello\<close> fails for a missing processor and records nothing, and the second call with
  \<open>/analyze x\<close> is a cache hit and records nothing.
\<close>

theorem history_skipped_counterexample:
  "enableHistory (options defaultAgent) = Some True
   \<and> success (fst (handle sampleRuntime (sampleReadings 0) helloContext defaultAgent)) = False
   \<and> history_size (stateManager (snd (handle sampleRuntime (sampleReadings 0) helloContext defaultAgent))) = 0
   \<and> fromCache (fst (handle sampleRuntime (sampleReadings 1) analyzeContext warmAgent)) = Some True
   \<and> history_size (stateManager (snd (handle sampleRuntime (sampleReadings 1) analyzeContext warmAgent)))
        = history_size (stateManager warmAgent)"
proof -
  have b: "runBefore (plugins warmAgent) analyzeContext = Inr analyzeContext"
    by (simp add: warmAgent_fields)
  note H = handle_hit[OF b warm_hit]
  show ?thesis
    by (simp add: helloContext_def handle_hello failure_def defaultAgent_fields history_size_def
          newStateManager_def H)
qed



lemma analyze_first:
  "runBefore (plugins defaultAgent) analyzeContext = Inr analyzeContext"
  "\<not> isHit sampleRuntime (sampleReadings 0) analyzeContext defaultAgent"
  "processors defaultAgent (intentType (intentOf sampleRuntime (sampleReadings 0) analyzeContext))
      = Some (createComplianceProcessor sampleRuntime)"
  "execute (createComplianceProcessor sampleRuntime)
      (params (intentOf sampleRuntime (sampleReadings 0) analyzeContext)) analyzeContext
      (t_exec (sampleReadings 0)) = Inr analyzeResult"
  "runAfter (plugins defaultAgent) analyzeContext analyzeResult = Inr ()"
  by (simp_all add: defaultAgent_fields miss_empty intent_A execute_A readings_at)

lemma hello_first:
  "runBefore (plugins defaultAgent) helloContext = Inr helloContext"
  "\<not> isHit sampleRuntime (sampleReadings 0) helloContext defaultAgent"
  "processors defaultAgent (intentType (intentOf sampleRuntime (sampleReadings 0) helloContext)) = None"
  by (simp_all add: defaultAgent_fields miss_empty intent_H)

lemma helpAgent_fields:
  "plugins helpAgent = []" "cache (agentCache helpAgent) = []"
  "processors helpAgent Help = Some throwingProcessor"
  "stateManager helpAgent = newStateManager"
  by (simp_all add: helpAgent_def registerProcessor_def defaultAgent_fields)

lemma help_first:
  "runBefore (plugins helpAgent) helpContext = Inr helpContext"
  "\<not> isHit sampleRuntime (sampleReadings 0) helpContext helpAgent"
  "processors helpAgent (intentType (intentOf sampleRuntime (sampleReadings 0) helpContext))
      = Some throwingProcessor"
  "execute throwingProcessor (params (intentOf sampleRuntime (sampleReadings 0) helpContext))
      helpContext (t_exec (sampleReadings 0)) = Inl (ErrorObject (ascii ''boom''))"
  by (simp_all add: helpAgent_fields miss_empty intent_P throwingProcessor_def)

lemma guarded_first:
  "runBefore (plugins guardedAgent) helloContext = Inl (OtherValue (ascii ''stop''))"
  "stateManager guardedAgent = newStateManager"
  by (simp_all add: guardedAgent_def use_def defaultAgent_fields throwingPlugin_def)

lemma quietAgent_fields:
  "plugins quietAgent = []" "cache (agentCache quietAgent) = []"
  "processors quietAgent Analyze = Some (createComplianceProcessor sampleRuntime)"
  "stateManager quietAgent = newStateManager"
  "enableHistory (options quietAgent) = Some False"
  by (simp_all add: quietAgent_def configure_def defaultAgent_fields mergeOptions_def noOptions_def)

lemma quiet_first:
  "runBefore (plugins quietAgent) analyzeContext = Inr analyzeContext"
  "\<not> isHit sampleRuntime (sampleReadings 0) analyzeContext quietAgent"
  "processors quietAgent (intentType (intentOf sampleRuntime (sampleReadings 0) analyzeContext))
      = Some (createComplianceProcessor sampleRuntime)"
  "execute (createComplianceProcessor sampleRuntime)
      (params (intentOf sampleRuntime (sampleReadings 0) analyzeContext)) analyzeContext
      (t_exec (sampleReadings 0)) = Inr analyzeResult"
  by (simp_all add: quietAgent_fields miss_empty intent_A execute_A readings_at)


theorem history_recorded_on_execution_witness:
  "runBefore (plugins guardedAgent) helloContext = Inl (OtherValue (ascii ''stop''))
   \<and> stateManager (snd (handle sampleRuntime (sampleReadings 0) helloContext guardedAgent))
        = stateManager guardedAgent
   \<and> runBefore (plugins warmAgent) analyzeContext = Inr analyzeContext
   \<and> isHit sampleRuntime (sampleReadings 1) analyzeContext warmAgent
   \<and> stateManager (snd (handle sampleRuntime (sampleReadings 1) analyzeContext warmAgent))
        = stateManager warmAgent
   \<and> \<not> isHit sampleRuntime (sampleReadings 0) helloContext defaultAgent
   \<and> processors defaultAgent (intentType (intentOf sampleRuntime (sampleReadings 0) helloContext)) = None
   \<and> stateManager (snd (handle sampleRuntime (sampleReadings 0) helloContext defaultAgent))
        = stateManager defaultAgent
   \<and> execute throwingProcessor (params (intentOf sampleRuntime (sampleReadings 0) helpContext))
        helpContext (t_exec (sampleReadings 0)) = Inl (ErrorObject (ascii ''boom''))
   \<and> stateManager (snd (handle sampleRuntime (sampleReadings 0) helpContext helpAgent))
        = stateManager helpAgent
   \<and> execute (createComplianceProcessor sampleRuntime)
        (params (intentOf sampleRuntime (sampleReadings 0) analyzeContext)) analyzeContext
        (t_exec (sampleReadings 0)) = Inr analyzeResult
   \<and> enableHistory (options defaultAgent) = Some True
   \<and> history (stateManager (snd (handle sampleRuntime (sampleReadings 0) analyzeContext defaultAgent)))
        = [\<lparr> entry_id = ascii ''id'',
             entry_intent = \<lparr> intentType = Analyze, params = [], confidence = 85 / 100 \<rparr>,
             entry_result = analyzeResult, entry_timestamp = 0, entry_duration = 0,
             entry_metadata = None \<rparr>]
   \<and> enableHistory (options quietAgent) = Some False
   \<and> stateManager (snd (handle sampleRuntime (sampleReadings 0) analyzeContext quietAgent))
        = stateManager quietAgent"
proof -
  have bw: "runBefore (plugins warmAgent) analyzeContext = Inr analyzeContext"
    by (simp add: warmAgent_fields)
  note A = history_recorded_on_execution[where a = guardedAgent and ?ctx0.0 = helloContext
      and e = "OtherValue (ascii ''stop'')" and E = sampleRuntime and r = "sampleReadings 0"]
  note B = history_recorded_on_execution[where a = warmAgent and ?ctx0.0 = analyzeContext
      and ctx = analyzeContext and E = sampleRuntime and r = "sampleReadings 1"]
  note C = history_recorded_on_execution[where a = defaultAgent and ?ctx0.0 = helloContext
      and ctx = helloContext and E = sampleRuntime and r = "sampleReadings 0"]
  note D = history_recorded_on_execution[where a = helpAgent and ?ctx0.0 = helpContext
      and ctx = helpContext and E = sampleRuntime and r = "sampleReadings 0"
      and p = throwingProcessor and e = "ErrorObject (ascii ''boom'')"]
  note F = history_recorded_on_execution[where a = defaultAgent and ?ctx0.0 = analyzeContext
      and ctx = analyzeContext and E = sampleRuntime and r = "sampleReadings 0"
      and p = "createComplianceProcessor sampleRuntime" and res = analyzeResult]
  note G = history_recorded_on_execution[where a = quietAgent and ?ctx0.0 = analyzeContext
      and ctx = analyzeContext and E = sampleRuntime and r = "sampleReadings 0"
      and p = "createComplianceProcessor sampleRuntime" and res = analyzeResult]
  have a: "stateManager (snd (handle sampleRuntime (sampleReadings 0) helloContext guardedAgent))
        = stateManager guardedAgent"
    using A guarded_first(1) by blast
  have b: "stateManager (snd (handle sampleRuntime (sampleReadings 1) analyzeContext warmAgent))
        = stateManager warmAgent"
    using B bw warm_hit by blast
  have c: "stateManager (snd (handle sampleRuntime (sampleReadings 0) helloContext defaultAgent))
        = stateManager defaultAgent"
    using C hello_first by blast
  have d: "stateManager (snd (handle sampleRuntime (sampleReadings 0) helpContext helpAgent))
        = stateManager helpAgent"
    using D help_first by blast
  have f: "stateManager (snd (handle sampleRuntime (sampleReadings 0) analyzeContext defaultAgent))
        = snd (recordEntry (historyInput sampleRuntime (sampleReadings 0) analyzeContext analyzeResult)
            (new_id (sampleReadings 0)) (t_stamp (sampleReadings 0)) (stateManager defaultAgent))"
    using F analyze_first(1-4) defaultAgent_fields(7) by blast
  have g: "stateManager (snd (handle sampleRuntime (sampleReadings 0) analyzeContext quietAgent))
        = stateManager quietAgent"
    using G quiet_first quietAgent_fields(5) by (simp add: quietAgent_fields)
  have h: "history (stateManager (snd (handle sampleRuntime (sampleReadings 0) analyzeContext defaultAgent)))
        = [\<lparr> entry_id = ascii ''id'',
             entry_intent = \<lparr> intentType = Analyze, params = [], confidence = 85 / 100 \<rparr>,
             entry_result = analyzeResult, entry_timestamp = 0, entry_duration = 0,
             entry_metadata = None \<rparr>]"
    unfolding f
    by (simp add: recordEntry_def Let_def makeEntry_def historyInput_def intent_A readings_at
          defaultAgent_fields newStateManager_def)
  show ?thesis
    using a b c d g h guarded_first(1) bw warm_hit hello_first(2,3) help_first(4) analyze_first(4)
      defaultAgent_fields(7) quietAgent_fields(5)
    by (intro conjI)
qed



theorem recognize_ordered_witness:
  "Review \<in> set tableOrder
   \<and> matchesType Review (toLowerCase sampleRuntime (trim reviewPriceMessage))
   \<and> matchesType Pricing (toLowerCase sampleRuntime (trim reviewPriceMessage))
   \<and> \<not> matchesType Analyze (toLowerCase sampleRuntime (trim reviewPriceMessage))
   \<and> recognize sampleRuntime 0 reviewPriceMessage =
        \<lparr> intentType = Review, params = [], confidence = 85 / 100 \<rparr>
   \<and> \<not> matchesType Analyze (toLowerCase sampleRuntime (trim (ascii ''hello'')))
   \<and> \<not> matchesType Review (toLowerCase sampleRuntime (trim (ascii ''hello'')))
   \<and> \<not> matchesType Pricing (toLowerCase sampleRuntime (trim (ascii ''hello'')))
   \<and> \<not> matchesType Export (toLowerCase sampleRuntime (trim (ascii ''hello'')))
   \<and> \<not> matchesType Help (toLowerCase sampleRuntime (trim (ascii ''hello'')))
   \<and> recognize sampleRuntime 0 (ascii ''hello'') =
        \<lparr> intentType = Unknown, params = [(ascii ''raw'', JString (ascii ''hello''))],
          confidence = 1 / 2 \<rparr>"
proof -
  note m_defs = matchesType_def patternsOf_def sampleRuntime_def asciiLower_def trim_def
    isWhiteSpace_def ascii_def patterns_def canon_def reviewPriceMessage_def
  have r1: "matchesType Review (toLowerCase sampleRuntime (trim reviewPriceMessage))"
    by (simp add: m_defs)
  have r2: "matchesType Pricing (toLowerCase sampleRuntime (trim reviewPriceMessage))"
    by (simp add: m_defs)
  have r3: "\<not> matchesType Analyze (toLowerCase sampleRuntime (trim reviewPriceMessage))"
    by (simp add: m_defs)
  have h: "\<not> matchesType Analyze (toLowerCase sampleRuntime (trim (ascii ''hello'')))"
    "\<not> matchesType Review (toLowerCase sampleRuntime (trim (ascii ''hello'')))"
    "\<not> matchesType Pricing (toLowerCase sampleRuntime (trim (ascii ''hello'')))"
    "\<not> matchesType Export (toLowerCase sampleRuntime (trim (ascii ''hello'')))"
    "\<not> matchesType Help (toLowerCase sampleRuntime (trim (ascii ''hello'')))"
    by (simp_all add: m_defs)
  have o: "Review \<in> set tableOrder" by (simp add: tableOrder_def)
  have e: "extractParams sampleRuntime reviewPriceMessage Review = []"
    by (simp add: extractParams_def sampleRuntime_def)
  note R = recognize_ordered[where ty = Review and E = sampleRuntime and msg = reviewPriceMessage
      and x = 0]
  note U = recognize_ordered[where E = sampleRuntime and msg = "ascii ''hello''" and x = 0]
  have a: "recognize sampleRuntime 0 reviewPriceMessage =
        \<lparr> intentType = Review, params = [], confidence = 85 / 100 \<rparr>"
    using R o r1 r3 by (simp add: tableOrder_def e)
  have b: "recognize sampleRuntime 0 (ascii ''hello'') =
        \<lparr> intentType = Unknown, params = [(ascii ''raw'', JString (ascii ''hello''))],
          confidence = 1 / 2 \<rparr>"
    using U h by (simp add: tableOrder_def)
  show ?thesis using o r1 r2 r3 a h b by (intro conjI)
qed

end
